theory Spec2Isabelle
  imports Complex_Main
begin

section \<open>Data model\<close>

text \<open>
  The scoring and ranking core of the platform: the Submission and Event models
  (\<^verbatim>\<open>server/models/Submission.js\<close>, \<^verbatim>\<open>server/models/Event.js\<close>), the
  submissions router (vote, judge, delete, \<^verbatim>\<open>updateEventLeaderboard\<close>) and the
  leaderboard routes of the events router (\<^verbatim>\<open>server/routes/events.js\<close>).

  Conventions of the embedding:
  \<^item> an ObjectId is a natural number, a Date is a natural number (milliseconds);
  \<^item> a JavaScript Number is an exact rational: the embedding covers finite values
    and ignores rounding and NaN;
  \<^item> a schema path that may be undefined is an \<open>option\<close>; JavaScript truthiness of
    such a path is written out (\<open>truthy\<close>);
  \<^item> a nested path of a schema (\<open>metadata\<close>, \<open>judging\<close>, \<open>voting\<close>,
    \<open>stats\<close>) is an object on every document, and an array path that is not set is
    the empty array; a path left out by a query's \<^verbatim>\<open>select\<close> is undefined on the
    loaded document;
  \<^item> the k-th reading of the clock inside one call (\<^verbatim>\<open>Date.now()\<close>,
    \<^verbatim>\<open>new Date()\<close>) is \<open>clk k\<close>;
  \<^item> an exception caught by a handler's \<^verbatim>\<open>try/catch\<close> is the error
    \<open>ServerError\<close>; an early \<^verbatim>\<open>res.status(...)\<close> return is its own error;
  \<^item> only the schema paths read or written by the modelled functions are fields of
    the records.
\<close>

type_synonym oid = nat
type_synonym number = rat
type_synonym date = nat
type_synonym clock = "nat \<Rightarrow> date"

datatype error = BadRequest | Forbidden | NotFound | ServerError | ValidationError

datatype lifecycle = Draft | Submitted | UnderReview | Approved | Rejected

datatype judging_status = Pending | Judging | Judged

datatype event_status = Upcoming | Active | EventJudging | Completed

record score_record =
  criterion :: string
  score :: number
  maxScore :: number
  judge :: "oid option"
  score_feedback :: "string option"
  timestamp :: date

record vote =
  user :: oid
  vote_score :: number
  vote_timestamp :: date

record metadata =
  linesOfCode :: "number option"
  technologies :: "string list option"
  innovation :: "number option"
  completeness :: "number option"
  documentation :: "number option"
  presentation :: "number option"

record judging =
  scores :: "score_record list"
  totalScore :: number
  averageScore :: number
  judging_status :: judging_status

record voting =
  publicVotes :: number
  votes :: "vote list"

record feedback_entry =
  from_user :: oid
  message :: string

record submission =
  event :: oid
  team :: oid
  metadata :: metadata
  judging :: judging
  voting :: voting
  status :: lifecycle
  feedback :: "feedback_entry list"

record leaderboard_entry =
  entry_team :: oid
  entry_submission :: oid
  entry_totalScore :: number
  entry_scores :: "score_record list"
  rank :: nat
  updatedAt :: date

record event_doc =
  organizer :: oid
  event_status :: event_status
  isAutomated :: bool
  judges :: "oid list"
  participants :: "oid list"
  teams :: "oid list"
  submissions :: "oid list"
  leaderboard :: "leaderboard_entry list"
  totalParticipants :: nat
  totalTeams :: nat
  totalSubmissions :: nat

record team_doc =
  leader :: oid
  team_submission :: "oid option"

text \<open>The three collections of the store, named after the Mongoose models.\<close>

record db =
  Event :: "oid \<rightharpoonup> event_doc"
  Submission :: "oid \<rightharpoonup> submission"
  Team :: "oid \<rightharpoonup> team_doc"

section \<open>Submission model: pre-save hook and autoJudge\<close>

text \<open>JavaScript truthiness of an optional number: undefined and 0 are falsy.\<close>

fun truthy :: "number option \<Rightarrow> bool" where
  "truthy None = False"
| "truthy (Some x) = (x \<noteq> 0)"

text \<open>
  \<^verbatim>\<open>SubmissionSchema.pre('save')\<close>: the two guarded recomputations, in the order of
  the source. \<open>judging\<close>, \<open>judging.scores\<close>, \<open>voting\<close> and \<open>voting.votes\<close> are
  always defined on a document, so the guards reduce to the length tests.
\<close>

definition pre_save :: "submission \<Rightarrow> submission" where
  "pre_save s =
     (let s1 =
        (if length (scores (judging s)) > 0 then
           (let total = foldl (\<lambda>sum sc. sum + score sc) 0 (scores (judging s)) in
            s\<lparr>judging := (judging s)\<lparr>totalScore := total,
                 averageScore := total / of_nat (length (scores (judging s)))\<rparr>\<rparr>)
         else s)
      in
        (if length (votes (voting s1)) > 0 then
           s1\<lparr>voting := (voting s1)\<lparr>publicVotes :=
                 foldl (\<lambda>sum v. sum + vote_score v) 0 (votes (voting s1))
                   / of_nat (length (votes (voting s1)))\<rparr>\<rparr>
         else s1))"

text \<open>
  One pushed record of \<^verbatim>\<open>autoJudge\<close>: no judge, no feedback, the time of the push.
  The clock is read once per push, so the reading number is the length of the list
  built so far.
\<close>

definition push_auto :: "clock \<Rightarrow> string \<Rightarrow> number \<Rightarrow> score_record list \<Rightarrow> score_record list" where
  "push_auto clk c v acc =
     acc @ [\<lparr>criterion = c, score = v, maxScore = 100, judge = None,
              score_feedback = None, timestamp = clk (length acc)\<rparr>]"

text \<open>The body of \<^verbatim>\<open>autoJudge\<close> between the guard and the assignment to \<open>judging.scores\<close>.\<close>

definition auto_scores :: "clock \<Rightarrow> metadata \<Rightarrow> score_record list" where
  "auto_scores clk m =
     (let s0 = [];
          s1 = (if truthy (innovation m)
                then push_auto clk ''Innovation'' (the (innovation m) * 10) s0 else s0);
          s2 = (if technologies m \<noteq> None \<and> truthy (linesOfCode m)
                then (let techScore = min (of_nat (length (the (technologies m))) * 10) 50;
                          codeScore = min (the (linesOfCode m) / 100) 50
                      in push_auto clk ''Technical Complexity'' (techScore + codeScore) s1)
                else s1);
          s3 = (if truthy (completeness m)
                then push_auto clk ''Completeness'' (the (completeness m) * 10) s2 else s2);
          s4 = (if truthy (documentation m)
                then push_auto clk ''Documentation'' (the (documentation m) * 10) s3 else s3);
          s5 = (if truthy (presentation m)
                then push_auto clk ''Presentation'' (the (presentation m) * 10) s4 else s4)
      in s5)"

text \<open>
  \<^verbatim>\<open>SubmissionSchema.methods.autoJudge\<close>. The guard
  \<^verbatim>\<open>if (!this.metadata) return;\<close> never fires: \<open>metadata\<close> is a nested path, so
  \<^verbatim>\<open>this.metadata\<close> is an object on every document, also on one created without
  metadata. The method overwrites the score list, sets the judging status and saves,
  which runs the pre-save hook; it has no \<^verbatim>\<open>throw\<close>. The result is the document as
  saved.
\<close>

definition autoJudge :: "clock \<Rightarrow> submission \<Rightarrow> error + submission" where
  "autoJudge clk s =
     Inr (pre_save (s\<lparr>judging := (judging s)\<lparr>scores := auto_scores clk (metadata s),
                                              judging_status := Judged\<rparr>\<rparr>))"

section \<open>Event model: pre-save hook\<close>

text \<open>
  \<^verbatim>\<open>EventSchema.pre('save')\<close>: the three counters are set from the lengths of the
  arrays of the document in memory. The arguments are \<^verbatim>\<open>this.participants\<close>,
  \<^verbatim>\<open>this.teams\<close> and \<^verbatim>\<open>this.submissions\<close> as that document has them: a
  path that the query did not select is undefined, and reading its \<^verbatim>\<open>length\<close>
  throws, so the save is rejected.
\<close>

definition event_pre_save ::
  "oid list option \<Rightarrow> oid list option \<Rightarrow> oid list option \<Rightarrow> event_doc \<Rightarrow> error + event_doc" where
  "event_pre_save this_participants this_teams this_submissions ev =
     (case this_participants of
        None \<Rightarrow> Inl ServerError
      | Some ps \<Rightarrow>
          (case this_teams of
             None \<Rightarrow> Inl ServerError
           | Some ts \<Rightarrow>
               (case this_submissions of
                  None \<Rightarrow> Inl ServerError
                | Some ss \<Rightarrow>
                    Inr (ev\<lparr>totalParticipants := length ps, totalTeams := length ts,
                            totalSubmissions := length ss\<rparr>))))"

section \<open>Sorting and ranking\<close>

text \<open>
  \<^verbatim>\<open>Array.prototype.sort(compare)\<close> is a stable sort (ECMAScript 2019): the
  embedding is the stable insertion sort on the comparator's sign. An element goes in
  front of the first element it does not compare greater than, so elements that
  compare equal keep their order.
\<close>

fun insert_by :: "('a \<Rightarrow> 'a \<Rightarrow> number) \<Rightarrow> 'a \<Rightarrow> 'a list \<Rightarrow> 'a list" where
  "insert_by cmp x [] = [x]"
| "insert_by cmp x (y # ys) = (if cmp x y \<le> 0 then x # y # ys else y # insert_by cmp x ys)"

fun sort_by :: "('a \<Rightarrow> 'a \<Rightarrow> number) \<Rightarrow> 'a list \<Rightarrow> 'a list" where
  "sort_by cmp [] = []"
| "sort_by cmp (x # xs) = insert_by cmp x (sort_by cmp xs)"

text \<open>The comparator \<^verbatim>\<open>(a, b) => b.totalScore - a.totalScore\<close> of all three routes.\<close>

definition by_totalScore :: "leaderboard_entry \<Rightarrow> leaderboard_entry \<Rightarrow> number" where
  "by_totalScore a b = entry_totalScore b - entry_totalScore a"

text \<open>\<^verbatim>\<open>forEach((entry, index) => { entry.rank = index + 1 })\<close>.\<close>

fun assign_ranks_from :: "nat \<Rightarrow> leaderboard_entry list \<Rightarrow> leaderboard_entry list" where
  "assign_ranks_from index [] = []"
| "assign_ranks_from index (entry # rest) =
     entry\<lparr>rank := index + 1\<rparr> # assign_ranks_from (index + 1) rest"

definition assign_ranks :: "leaderboard_entry list \<Rightarrow> leaderboard_entry list" where
  "assign_ranks lb = assign_ranks_from 0 lb"

section \<open>Submissions router\<close>

text \<open>
  \<^verbatim>\<open>populate('submissions')\<close>: the referenced documents in the order of the id
  array; an id without a document is dropped.
\<close>

definition populate_submissions :: "db \<Rightarrow> oid list \<Rightarrow> (oid \<times> submission) list" where
  "populate_submissions d ids = List.map_filter (\<lambda>i. map_option (Pair i) (Submission d i)) ids"

text \<open>
  The \<^verbatim>\<open>for\<close> loop of \<^verbatim>\<open>updateEventLeaderboard\<close>, with the list built so far.
  \<^verbatim>\<open>submission.team._id\<close> throws when the populated team is null.
\<close>

fun collect_entries ::
  "db \<Rightarrow> clock \<Rightarrow> (oid \<times> submission) list \<Rightarrow> leaderboard_entry list
     \<Rightarrow> error + leaderboard_entry list" where
  "collect_entries d clk [] lb = Inr lb"
| "collect_entries d clk ((sid, s) # rest) lb =
     (if status s = Submitted \<and> totalScore (judging s) > 0 then
        (case Team d (team s) of
           None \<Rightarrow> Inl ServerError
         | Some t \<Rightarrow>
             collect_entries d clk rest
               (lb @ [\<lparr>entry_team = team s, entry_submission = sid,
                        entry_totalScore = totalScore (judging s) + publicVotes (voting s) * 10,
                        entry_scores = scores (judging s), rank = 0,
                        updatedAt = clk (length lb)\<rparr>]))
      else collect_entries d clk rest lb)"

text \<open>
  The \<^verbatim>\<open>try\<close> block of \<^verbatim>\<open>updateEventLeaderboard\<close>: the new store and the list
  returned. The event is loaded whole, with its submissions populated, so the hook of
  \<^verbatim>\<open>event.save()\<close> sees the populated array.
\<close>

definition rebuild_leaderboard :: "db \<Rightarrow> clock \<Rightarrow> oid \<Rightarrow> error + (db \<times> leaderboard_entry list)" where
  "rebuild_leaderboard d clk eventId =
     (case Event d eventId of
        None \<Rightarrow> Inl ServerError
      | Some ev \<Rightarrow>
          (let populated = populate_submissions d (submissions ev)
           in case collect_entries d clk populated [] of
                Inl e \<Rightarrow> Inl e
              | Inr lb \<Rightarrow>
                  (let ranked = assign_ranks (sort_by by_totalScore lb)
                   in case event_pre_save (Some (participants ev)) (Some (teams ev))
                             (Some (map fst populated)) (ev\<lparr>leaderboard := ranked\<rparr>) of
                        Inl e \<Rightarrow> Inl e
                      | Inr ev' \<Rightarrow> Inr (d\<lparr>Event := (Event d)(eventId \<mapsto> ev')\<rparr>, ranked))))"

text \<open>
  \<^verbatim>\<open>updateEventLeaderboard\<close>: the \<^verbatim>\<open>catch\<close> logs the exception and returns the
  empty list; nothing was saved.
\<close>

definition updateEventLeaderboard :: "db \<Rightarrow> clock \<Rightarrow> oid \<Rightarrow> db \<times> leaderboard_entry list" where
  "updateEventLeaderboard d clk eventId =
     (case rebuild_leaderboard d clk eventId of
        Inl e \<Rightarrow> (d, [])
      | Inr r \<Rightarrow> r)"

text \<open>
  The vote upsert of \<^verbatim>\<open>POST /:id/vote\<close>: \<^verbatim>\<open>find\<close> returns the first vote of the
  user, which is then overwritten in place; without one a new vote is pushed.
\<close>

fun overwrite_first :: "oid \<Rightarrow> number \<Rightarrow> date \<Rightarrow> vote list \<Rightarrow> vote list" where
  "overwrite_first u sc t [] = []"
| "overwrite_first u sc t (v # vs) =
     (if user v = u then v\<lparr>vote_score := sc, vote_timestamp := t\<rparr> # vs
      else v # overwrite_first u sc t vs)"

definition cast_vote :: "oid \<Rightarrow> number \<Rightarrow> date \<Rightarrow> vote list \<Rightarrow> vote list" where
  "cast_vote u sc t vs =
     (case find (\<lambda>v. user v = u) vs of
        Some existingVote \<Rightarrow> overwrite_first u sc t vs
      | None \<Rightarrow> vs @ [\<lparr>user = u, vote_score = sc, vote_timestamp = t\<rparr>])"

text \<open>\<^verbatim>\<open>submission.save()\<close>: the pre-save hook, then the write.\<close>

definition save_submission :: "db \<Rightarrow> oid \<Rightarrow> submission \<Rightarrow> db \<times> submission" where
  "save_submission d sid s =
     (let s' = pre_save s in (d\<lparr>Submission := (Submission d)(sid \<mapsto> s')\<rparr>, s'))"

text \<open>
  \<^verbatim>\<open>router.post('/:id/vote')\<close> for the authenticated user \<open>u\<close>. The response of a
  success is the submission's public vote average.
\<close>

definition vote_route :: "db \<Rightarrow> clock \<Rightarrow> oid \<Rightarrow> oid \<Rightarrow> number \<Rightarrow> db \<times> (error + number)" where
  "vote_route d clk u sid sc =
     (if sc < 1 \<or> sc > 5 then (d, Inl BadRequest)
      else case Submission d sid of
        None \<Rightarrow> (d, Inl NotFound)
      | Some s \<Rightarrow>
          (case Event d (event s) of
             None \<Rightarrow> (d, Inl ServerError)
           | Some ev \<Rightarrow>
               if event_status ev \<noteq> EventJudging \<and> event_status ev \<noteq> Completed
               then (d, Inl BadRequest)
               else
                 (let (d1, s1) = save_submission d sid
                        (s\<lparr>voting := (voting s)\<lparr>votes := cast_vote u sc (clk 0) (votes (voting s))\<rparr>\<rparr>);
                      (d2, lb) = updateEventLeaderboard d1 (\<lambda>k. clk (Suc k)) (event s)
                  in (d2, Inr (publicVotes (voting s1))))))"

text \<open>
  The filter of \<^verbatim>\<open>POST /:id/judge\<close>: \<^verbatim>\<open>score.judge.toString()\<close> throws on a
  record without a judge (the records of \<^verbatim>\<open>autoJudge\<close> have none).
\<close>

fun remove_judge :: "oid \<Rightarrow> score_record list \<Rightarrow> error + score_record list" where
  "remove_judge u [] = Inr []"
| "remove_judge u (sc # rest) =
     (case judge sc of
        None \<Rightarrow> Inl ServerError
      | Some j \<Rightarrow>
          (case remove_judge u rest of
             Inl e \<Rightarrow> Inl e
           | Inr kept \<Rightarrow> Inr (if j \<noteq> u then sc # kept else kept)))"

record score_data =
  sd_criterion :: string
  sd_score :: number
  sd_maxScore :: "number option"
  sd_feedback :: "string option"

text \<open>\<^verbatim>\<open>scores.forEach(scoreData => submission.judging.scores.push({...}))\<close>.\<close>

fun push_scores :: "clock \<Rightarrow> oid \<Rightarrow> nat \<Rightarrow> score_data list \<Rightarrow> score_record list \<Rightarrow> score_record list" where
  "push_scores clk u k [] acc = acc"
| "push_scores clk u k (scoreData # rest) acc =
     push_scores clk u (Suc k) rest
       (acc @ [\<lparr>criterion = sd_criterion scoreData, score = sd_score scoreData,
                 maxScore = (if truthy (sd_maxScore scoreData) then the (sd_maxScore scoreData) else 100),
                 judge = Some u, score_feedback = sd_feedback scoreData,
                 timestamp = clk k\<rparr>])"

text \<open>
  \<^verbatim>\<open>if (feedback) { submission.feedback.push({...}) }\<close>: an undefined or empty
  text is falsy.
\<close>

definition add_feedback :: "oid \<Rightarrow> string option \<Rightarrow> submission \<Rightarrow> submission" where
  "add_feedback u fb s =
     (case fb of
        None \<Rightarrow> s
      | Some m \<Rightarrow>
          if m \<noteq> [] then s\<lparr>feedback := feedback s @ [\<lparr>from_user = u, message = m\<rparr>]\<rparr> else s)"

text \<open>
  \<^verbatim>\<open>router.post('/:id/judge')\<close> for the authenticated user \<open>u\<close>; \<open>fb\<close> is the
  optional feedback text of the request. The response of a success is the total score.
\<close>

definition judge_route ::
  "db \<Rightarrow> clock \<Rightarrow> oid \<Rightarrow> oid \<Rightarrow> score_data list \<Rightarrow> string option \<Rightarrow> db \<times> (error + number)" where
  "judge_route d clk u sid new_scores fb =
     (case Submission d sid of
        None \<Rightarrow> (d, Inl NotFound)
      | Some s \<Rightarrow>
          (case Event d (event s) of
             None \<Rightarrow> (d, Inl ServerError)
           | Some ev \<Rightarrow>
               if \<not> (u \<in> set (judges ev) \<or> organizer ev = u) then (d, Inl Forbidden)
               else
                 (case remove_judge u (scores (judging s)) of
                    Inl e \<Rightarrow> (d, Inl e)
                  | Inr kept \<Rightarrow>
                      (let n = length new_scores;
                           s1 = s\<lparr>judging := (judging s)\<lparr>scores := push_scores clk u 0 new_scores kept,
                                                            judging_status := Judged\<rparr>\<rparr>;
                           s2 = add_feedback u fb s1;
                           (d1, s3) = save_submission d sid s2;
                           (d2, lb) = updateEventLeaderboard d1 (\<lambda>k. clk (Suc (n + k))) (event s)
                       in (d2, Inr (totalScore (judging s3)))))))"

text \<open>
  \<^verbatim>\<open>router.delete('/:id')\<close> of the submissions router for the authenticated user
  \<open>u\<close>: team and event are populated; a null one throws at the authorization test.
\<close>

definition delete_route :: "db \<Rightarrow> clock \<Rightarrow> oid \<Rightarrow> oid \<Rightarrow> db \<times> (error + unit)" where
  "delete_route d clk u sid =
     (case Submission d sid of
        None \<Rightarrow> (d, Inl NotFound)
      | Some s \<Rightarrow>
          (case Team d (team s) of
             None \<Rightarrow> (d, Inl ServerError)
           | Some t \<Rightarrow>
               (case Event d (event s) of
                  None \<Rightarrow> (d, Inl ServerError)
                | Some ev \<Rightarrow>
                    if leader t \<noteq> u \<and> organizer ev \<noteq> u then (d, Inl Forbidden)
                    else
                      (let d1 = d\<lparr>Team := (Team d)(team s \<mapsto> t\<lparr>team_submission := None\<rparr>)\<rparr>;
                           d2 = d1\<lparr>Event := (Event d1)(event s \<mapsto>
                                      ev\<lparr>submissions := removeAll sid (submissions ev)\<rparr>)\<rparr>;
                           d3 = d2\<lparr>Submission := (Submission d2)(sid := None)\<rparr>;
                           (d4, lb) = updateEventLeaderboard d3 clk (event s)
                       in (d4, Inr ())))))"

section \<open>Events router\<close>



text \<open>
  The loop of \<^verbatim>\<open>router.post('/:id/update-leaderboard')\<close>: a pending submission is
  auto-judged first, which saves it; every submission is pushed, with
  \<^verbatim>\<open>judging.totalScore || 0\<close> as its score. An exception leaves the submissions
  saved so far in the store.
\<close>

fun organizer_entries ::
  "db \<Rightarrow> clock \<Rightarrow> (oid \<times> submission) list \<Rightarrow> leaderboard_entry list
     \<Rightarrow> db \<times> (error + leaderboard_entry list)" where
  "organizer_entries d clk [] lb = (d, Inr lb)"
| "organizer_entries d clk ((sid, s) # rest) lb =
     (case (if judging_status (judging s) = Pending then autoJudge clk s else Inr s) of
        Inl e \<Rightarrow> (d, Inl e)
      | Inr s' \<Rightarrow>
          (let d' = (if judging_status (judging s) = Pending
                     then d\<lparr>Submission := (Submission d)(sid \<mapsto> s')\<rparr> else d)
           in case Team d' (team s') of
                None \<Rightarrow> (d', Inl ServerError)
              | Some t \<Rightarrow>
                  organizer_entries d' clk rest
                    (lb @ [\<lparr>entry_team = team s', entry_submission = sid,
                             entry_totalScore =
                               (if totalScore (judging s') \<noteq> 0 then totalScore (judging s') else 0),
                             entry_scores = scores (judging s'), rank = 0,
                             updatedAt = clk (length lb)\<rparr>])))"

text \<open>\<^verbatim>\<open>router.post('/:id/update-leaderboard')\<close> for the authenticated user \<open>u\<close>.\<close>

definition update_leaderboard_route ::
  "db \<Rightarrow> clock \<Rightarrow> oid \<Rightarrow> oid \<Rightarrow> db \<times> (error + leaderboard_entry list)" where
  "update_leaderboard_route d clk u eventId =
     (case Event d eventId of
        None \<Rightarrow> (d, Inl NotFound)
      | Some ev \<Rightarrow>
          if organizer ev \<noteq> u then (d, Inl Forbidden)
          else
            (let populated = populate_submissions d (submissions ev)
             in case organizer_entries d clk populated [] of
                  (d1, Inl e) \<Rightarrow> (d1, Inl ServerError)
                | (d1, Inr lb) \<Rightarrow>
                    (let ranked = assign_ranks (sort_by by_totalScore lb)
                     in case event_pre_save (Some (participants ev)) (Some (teams ev))
                               (Some (map fst populated)) (ev\<lparr>leaderboard := ranked\<rparr>) of
                          Inl e \<Rightarrow> (d1, Inl ServerError)
                        | Inr ev' \<Rightarrow> (d1\<lparr>Event := (Event d1)(eventId \<mapsto> ev')\<rparr>, Inr ranked))))"

section \<open>The scoring rules in words\<close>

text \<open>
  The score records of \<^verbatim>\<open>autoJudge\<close> as the specification lists them, one
  optional record per metric in a fixed order, with a metric counted as present when
  its value is defined and not zero. \<open>rating_ok\<close> is the schema's range of a
  rating (\<^verbatim>\<open>min: 1, max: 10\<close>).
\<close>

definition spec_rating :: "string \<Rightarrow> number option \<Rightarrow> (string \<times> number) list" where
  "spec_rating c r = (case r of None \<Rightarrow> [] | Some x \<Rightarrow> if x = 0 then [] else [(c, x * 10)])"

definition spec_complexity :: "string list option \<Rightarrow> number option \<Rightarrow> (string \<times> number) list" where
  "spec_complexity ts loc =
     (case ts of
        None \<Rightarrow> []
      | Some techs \<Rightarrow>
          (case loc of
             None \<Rightarrow> []
           | Some n \<Rightarrow>
               if n = 0 then []
               else [(''Technical Complexity'', min (of_nat (length techs) * 10) 50 + min (n / 100) 50)]))"

definition spec_scores :: "metadata \<Rightarrow> (string \<times> number) list" where
  "spec_scores m =
     spec_rating ''Innovation'' (innovation m)
     @ spec_complexity (technologies m) (linesOfCode m)
     @ spec_rating ''Completeness'' (completeness m)
     @ spec_rating ''Documentation'' (documentation m)
     @ spec_rating ''Presentation'' (presentation m)"

definition rating_ok :: "number option \<Rightarrow> bool" where
  "rating_ok r = (case r of None \<Rightarrow> True | Some x \<Rightarrow> 1 \<le> x \<and> x \<le> 10)"

section \<open>Example data\<close>

text \<open>
  A clock, the schema defaults of a new submission, and a small store: one event in
  its judging phase with five submissions, listed in the order 12, 10, 11, 13, 14.
\<close>

definition clk0 :: clock where
  "clk0 k = 1000 + k"

text \<open>
  The metadata of the specification's scenario, one with a metric of value zero, and
  the metadata block of a document created without metadata (no number set, the
  technology list empty).
\<close>

definition scenario_metadata :: metadata where
  "scenario_metadata =
     \<lparr>linesOfCode = Some 300, technologies = Some [''a'', ''b'', ''c''], innovation = Some 8,
      completeness = Some 9, documentation = Some 5, presentation = Some 7\<rparr>"

definition zero_loc_metadata :: metadata where
  "zero_loc_metadata =
     \<lparr>linesOfCode = Some 0, technologies = Some [''a''], innovation = None,
      completeness = None, documentation = None, presentation = None\<rparr>"

definition empty_metadata :: metadata where
  "empty_metadata =
     \<lparr>linesOfCode = None, technologies = Some [], innovation = None,
      completeness = None, documentation = None, presentation = None\<rparr>"

definition new_submission :: "oid \<Rightarrow> oid \<Rightarrow> metadata \<Rightarrow> lifecycle \<Rightarrow> submission" where
  "new_submission ev tm md st =
     \<lparr>event = ev, team = tm, metadata = md,
      judging = \<lparr>scores = [], totalScore = 0, averageScore = 0, judging_status = Pending\<rparr>,
      voting = \<lparr>publicVotes = 0, votes = []\<rparr>,
      status = st, feedback = []\<rparr>"

definition judged :: "oid \<Rightarrow> string \<Rightarrow> number \<Rightarrow> score_record" where
  "judged j c v = \<lparr>criterion = c, score = v, maxScore = 100, judge = Some j,
                   score_feedback = None, timestamp = 500\<rparr>"

definition voted :: "oid \<Rightarrow> number \<Rightarrow> vote" where
  "voted u v = \<lparr>user = u, vote_score = v, vote_timestamp = 600\<rparr>"

definition stored :: "submission \<Rightarrow> score_record list \<Rightarrow> vote list \<Rightarrow> submission" where
  "stored s scs vs =
     pre_save (s\<lparr>judging := (judging s)\<lparr>scores := scs, judging_status := (if scs = [] then Pending else Judged)\<rparr>,
                voting := (voting s)\<lparr>votes := vs\<rparr>\<rparr>)"

definition sub_a :: submission where
  "sub_a = stored (new_submission 1 20 empty_metadata Submitted)
             [judged 5 ''Innovation'' 80, judged 6 ''Innovation'' 60] [voted 7 4, voted 8 5]"

definition sub_b :: submission where
  "sub_b = stored (new_submission 1 21 empty_metadata Submitted)
             [judged 5 ''Innovation'' 100, judged 5 ''Design'' 40] [voted 7 5, voted 8 4]"

definition sub_c :: submission where
  "sub_c = stored (new_submission 1 22 empty_metadata Submitted) [judged 5 ''Innovation'' 90] []"

definition sub_d :: submission where
  "sub_d = stored (new_submission 1 23 empty_metadata Submitted) [] [voted 7 4]"

definition sub_e :: submission where
  "sub_e = stored (new_submission 1 24 empty_metadata Draft) [judged 5 ''Innovation'' 70] []"

definition event1 :: event_doc where
  "event1 = \<lparr>organizer = 1, event_status = EventJudging, isAutomated = True, judges = [5, 6],
             participants = [7, 8, 30, 31, 32, 33, 34], teams = [20, 21, 22, 23, 24],
             submissions = [12, 10, 11, 13, 14], leaderboard = [],
             totalParticipants = 7, totalTeams = 5, totalSubmissions = 5\<rparr>"

definition db0 :: db where
  "db0 = \<lparr>Event = [1 \<mapsto> event1],
          Submission = [10 \<mapsto> sub_a, 11 \<mapsto> sub_b, 12 \<mapsto> sub_c, 13 \<mapsto> sub_d, 14 \<mapsto> sub_e],
          Team = [20 \<mapsto> \<lparr>leader = 30, team_submission = Some 10\<rparr>,
                  21 \<mapsto> \<lparr>leader = 31, team_submission = Some 11\<rparr>,
                  22 \<mapsto> \<lparr>leader = 32, team_submission = Some 12\<rparr>,
                  23 \<mapsto> \<lparr>leader = 33, team_submission = Some 13\<rparr>,
                  24 \<mapsto> \<lparr>leader = 34, team_submission = Some 14\<rparr>]\<rparr>"

definition scenario_submission :: submission where
  "scenario_submission = new_submission 1 20 scenario_metadata Submitted"

text \<open>A later clock, for a second invocation.\<close>

definition late_clock :: clock where
  "late_clock k = 2000 + k"

text \<open>The score set of a judge's resubmission.\<close>

definition rescore :: "score_data list" where
  "rescore = [\<lparr>sd_criterion = ''Innovation'', sd_score = 50, sd_maxScore = None, sd_feedback = None\<rparr>]"

text \<open>
  A store with two submitted submissions: 10 with the judge score 80 and the public
  votes 4 and 5, and 12 with the judge score 90 and no vote.
\<close>

definition sub_f :: submission where
  "sub_f = stored (new_submission 1 20 empty_metadata Submitted)
             [judged 5 ''Innovation'' 80] [voted 7 4, voted 8 5]"

definition db1 :: db where
  "db1 = \<lparr>Event = [1 \<mapsto> event1\<lparr>submissions := [10, 12], totalSubmissions := 2\<rparr>],
          Submission = [10 \<mapsto> sub_f, 12 \<mapsto> sub_c],
          Team = [20 \<mapsto> \<lparr>leader = 30, team_submission = Some 10\<rparr>,
                  22 \<mapsto> \<lparr>leader = 32, team_submission = Some 12\<rparr>]\<rparr>"

text \<open>
  The example store after a rebuild of its leaderboard and after the team delete route
  has removed team 22, to which submission 12 still refers.
\<close>

definition db_dangling :: db where
  "db_dangling =
     (let d = fst (updateEventLeaderboard db0 clk0 1) in d\<lparr>Team := (Team d)(22 := None)\<rparr>)"

section \<open>Sorting and ranking: properties\<close>

lemmas example_defs = clk0_def new_submission_def judged_def voted_def stored_def sub_a_def sub_b_def
  sub_c_def sub_d_def sub_e_def event1_def db0_def pre_save_def

lemma insert_by_insort:
  "insert_by by_totalScore x ys = insort_key (\<lambda>e. - entry_totalScore e) x ys"
  by (induction ys) (auto simp: by_totalScore_def)

lemma sort_by_sort_key:
  "sort_by by_totalScore xs = sort_key (\<lambda>e. - entry_totalScore e) xs"
  by (induction xs) (simp_all add: insert_by_insort)

lemma sort_by_descending:
  "sorted_wrt (\<lambda>a b. entry_totalScore a \<ge> entry_totalScore b) (sort_by by_totalScore xs)"
proof -
  have "sorted (map (\<lambda>e. - entry_totalScore e) (sort_by by_totalScore xs))"
    by (simp add: sort_by_sort_key)
  then show ?thesis
    by (simp add: sorted_map sorted_wrt_iff_nth_less)
qed

lemma sort_by_stable:
  "filter (\<lambda>e. entry_totalScore e = k) (sort_by by_totalScore xs)
     = filter (\<lambda>e. entry_totalScore e = k) xs"
proof -
  have "filter (\<lambda>e. - entry_totalScore e = - k) (sort_key (\<lambda>e. - entry_totalScore e) xs)
          = filter (\<lambda>e. - entry_totalScore e = - k) xs"
    by (rule sort_key_stable)
  then show ?thesis by (simp add: sort_by_sort_key)
qed

lemma sort_by_set: "set (sort_by by_totalScore xs) = set xs"
  by (simp add: sort_by_sort_key)

lemma assign_ranks_from_length: "length (assign_ranks_from i xs) = length xs"
  by (induction xs arbitrary: i) simp_all

lemma assign_ranks_from_rank: "map rank (assign_ranks_from i xs) = [i + 1 ..< i + 1 + length xs]"
  by (induction xs arbitrary: i) (simp_all add: upt_rec)

lemma assign_ranks_from_totalScore:
  "map entry_totalScore (assign_ranks_from i xs) = map entry_totalScore xs"
  by (induction xs arbitrary: i) simp_all

lemma assign_ranks_from_filter:
  "map entry_submission (filter (\<lambda>e. entry_totalScore e = k) (assign_ranks_from i xs))
     = map entry_submission (filter (\<lambda>e. entry_totalScore e = k) xs)"
  by (induction xs arbitrary: i) simp_all

lemma assign_ranks_from_sorted:
  "sorted_wrt (\<lambda>a b. entry_totalScore a \<ge> entry_totalScore b) (assign_ranks_from i xs)
     = sorted_wrt (\<lambda>a b. entry_totalScore a \<ge> entry_totalScore b) xs"
proof -
  have "sorted_wrt (\<lambda>a b. entry_totalScore a \<ge> entry_totalScore b) ys
          = sorted_wrt (\<lambda>a b. a \<ge> b) (map entry_totalScore ys)" for ys :: "leaderboard_entry list"
    by (simp add: sorted_wrt_map)
  then show ?thesis by (simp add: assign_ranks_from_totalScore)
qed

section \<open>Rebuilding the leaderboard\<close>

lemma collect_entries_pairs:
  "collect_entries d clk ps acc = Inr lb \<Longrightarrow>
   map (\<lambda>e. (entry_submission e, entry_totalScore e)) lb
     = map (\<lambda>e. (entry_submission e, entry_totalScore e)) acc
       @ map (\<lambda>p. (fst p, totalScore (judging (snd p)) + publicVotes (voting (snd p)) * 10))
           (filter (\<lambda>p. status (snd p) = Submitted \<and> totalScore (judging (snd p)) > 0) ps)"
proof (induction ps arbitrary: acc)
  case Nil
  then show ?case by simp
next
  case (Cons p ps)
  obtain sid s where p: "p = (sid, s)" by (cases p)
  show ?case
  proof (cases "status s = Submitted \<and> totalScore (judging s) > 0")
    case True
    with Cons.prems p obtain t where t: "Team d (team s) = Some t"
      by (auto split: option.splits)
    from True Cons.prems p t Cons.IH show ?thesis by simp
  next
    case False
    with Cons.prems p Cons.IH show ?thesis by auto
  qed
qed

lemma populate_submissions_Nil: "populate_submissions d [] = []"
  by (simp add: populate_submissions_def)

lemma populate_submissions_Cons:
  "populate_submissions d (i # ids) =
     (case Submission d i of
        None \<Rightarrow> populate_submissions d ids
      | Some s \<Rightarrow> (i, s) # populate_submissions d ids)"
  by (simp add: populate_submissions_def split: option.splits)

lemma populate_submissions_lookup:
  "(i, s) \<in> set (populate_submissions d ids) \<longleftrightarrow> i \<in> set ids \<and> Submission d i = Some s"
  by (induction ids)
     (auto simp: populate_submissions_Nil populate_submissions_Cons split: option.splits)

lemma populate_submissions_fst:
  "map fst (populate_submissions d ids) = filter (\<lambda>i. Submission d i \<noteq> None) ids"
  by (induction ids)
     (auto simp: populate_submissions_Nil populate_submissions_Cons split: option.splits)

lemma pairs_filter:
  "map entry_submission (filter (\<lambda>e. entry_totalScore e = k) xs)
     = map fst (filter (\<lambda>p. snd p = k) (map (\<lambda>e. (entry_submission e, entry_totalScore e)) xs))"
  by (induction xs) simp_all

lemma rebuild_leaderboard_success:
  assumes "rebuild_leaderboard d clk eventId = Inr (d', lb)"
  obtains ev lb0 where "Event d eventId = Some ev"
    and "collect_entries d clk (populate_submissions d (submissions ev)) [] = Inr lb0"
    and "lb = assign_ranks (sort_by by_totalScore lb0)"
    and "d' = d\<lparr>Event := (Event d)(eventId \<mapsto>
            ev\<lparr>leaderboard := lb, totalParticipants := length (participants ev),
               totalTeams := length (teams ev),
               totalSubmissions := length (populate_submissions d (submissions ev))\<rparr>)\<rparr>"
  using assms
  by (auto simp: rebuild_leaderboard_def event_pre_save_def Let_def split: option.splits sum.splits)

lemma ranked_sorted_filter:
  "map entry_submission (filter (\<lambda>e. entry_totalScore e = k) (assign_ranks (sort_by by_totalScore xs)))
     = map entry_submission (filter (\<lambda>e. entry_totalScore e = k) xs)"
  by (simp add: assign_ranks_def assign_ranks_from_filter sort_by_stable)

lemma ranked_sorted_pairs_set:
  "(\<lambda>e. (entry_submission e, entry_totalScore e)) ` set (assign_ranks (sort_by by_totalScore xs))
     = (\<lambda>e. (entry_submission e, entry_totalScore e)) ` set xs"
proof -
  have "(\<lambda>e. (entry_submission e, entry_totalScore e)) ` set (assign_ranks_from i ys)
          = (\<lambda>e. (entry_submission e, entry_totalScore e)) ` set ys" for i ys
    by (induction ys arbitrary: i) simp_all
  then show ?thesis by (simp add: assign_ranks_def sort_by_set)
qed

lemma rebuild_persisted:
  assumes "rebuild_leaderboard d clk eventId = Inr (d', lb)"
  shows "map_option leaderboard (Event d' eventId) = Some lb"
  using assms by (auto elim!: rebuild_leaderboard_success)

lemma rebuild_sorted:
  assumes "rebuild_leaderboard d clk eventId = Inr (d', lb)"
  shows "sorted_wrt (\<lambda>a b. entry_totalScore a \<ge> entry_totalScore b) lb"
  using assms
  by (auto elim!: rebuild_leaderboard_success
           simp: assign_ranks_def assign_ranks_from_sorted sort_by_descending)

lemma rebuild_ranks:
  assumes "rebuild_leaderboard d clk eventId = Inr (d', lb)"
  shows "map rank lb = [1 ..< length lb + 1]"
proof -
  from assms obtain lb0 where "lb = assign_ranks (sort_by by_totalScore lb0)"
    by (auto elim!: rebuild_leaderboard_success)
  then show ?thesis
    by (simp add: assign_ranks_def assign_ranks_from_rank assign_ranks_from_length)
qed

text \<open>
  The \<^verbatim>\<open>try\<close> block completes when the event exists and every eligible
  submission refers to an existing team.
\<close>

lemma collect_entries_completes:
  assumes "\<forall>p \<in> set ps. status (snd p) = Submitted \<and> totalScore (judging (snd p)) > 0
             \<longrightarrow> Team d (team (snd p)) \<noteq> None"
  shows "\<exists>lb. collect_entries d clk ps acc = Inr lb"
  using assms
proof (induction ps arbitrary: acc)
  case Nil
  then show ?case by simp
next
  case (Cons p ps)
  obtain sid s where p: "p = (sid, s)" by (cases p)
  from Cons.prems have rest: "\<forall>p \<in> set ps. status (snd p) = Submitted \<and> totalScore (judging (snd p)) > 0
             \<longrightarrow> Team d (team (snd p)) \<noteq> None"
    by simp
  show ?case
  proof (cases "status s = Submitted \<and> totalScore (judging s) > 0")
    case True
    with Cons.prems p obtain t where "Team d (team s) = Some t"
      by auto
    with True p Cons.IH [OF rest] show ?thesis by simp
  next
    case False
    with p Cons.IH [OF rest] show ?thesis by auto
  qed
qed

lemma rebuild_leaderboard_completes:
  assumes "Event d eventId = Some ev"
    and "\<forall>p \<in> set (populate_submissions d (submissions ev)).
           status (snd p) = Submitted \<and> totalScore (judging (snd p)) > 0
             \<longrightarrow> Team d (team (snd p)) \<noteq> None"
  shows "\<exists>d' lb. rebuild_leaderboard d clk eventId = Inr (d', lb)"
proof -
  from collect_entries_completes [OF assms(2)] obtain lb0 where
    "collect_entries d clk (populate_submissions d (submissions ev)) [] = Inr lb0"
    by blast
  with assms(1) show ?thesis
    by (simp add: rebuild_leaderboard_def event_pre_save_def Let_def)
qed

text \<open>
  C1 (amended). A run of \<^verbatim>\<open>updateEventLeaderboard\<close> that completes persists the
  list it returns as the event's leaderboard. That list is sorted in descending order of the entries'
  score; its ranks are 1, 2, 3, ... in list order, without gaps and without shared
  ranks; the score of every entry is \<open>judging.totalScore + publicVotes * 10\<close> of the
  entry's submission; and for every score value the entries with that score stand in
  the order in which their submissions are listed in the event (ties keep their prior
  order). The result is a function of the store, so it is the same for the same state.
\<close>

theorem recompute_sorted_dense_stable:
  assumes ev: "Event d eventId = Some ev"
    and ok: "rebuild_leaderboard d clk eventId = Inr (d', lb)"
  shows "updateEventLeaderboard d clk eventId = (d', lb)
    \<and> map_option leaderboard (Event d' eventId) = Some lb
    \<and> sorted_wrt (\<lambda>a b. entry_totalScore a \<ge> entry_totalScore b) lb
    \<and> map rank lb = [1 ..< length lb + 1]
    \<and> (\<forall>e \<in> set lb. \<exists>s. Submission d (entry_submission e) = Some s
           \<and> entry_totalScore e = totalScore (judging s) + publicVotes (voting s) * 10)
    \<and> (\<forall>k. map entry_submission (filter (\<lambda>e. entry_totalScore e = k) lb)
           = map fst (filter (\<lambda>p. status (snd p) = Submitted \<and> totalScore (judging (snd p)) > 0
                                 \<and> totalScore (judging (snd p)) + publicVotes (voting (snd p)) * 10 = k)
                       (populate_submissions d (submissions ev))))"
proof -
  from ok ev obtain lb0 where
    lb0: "collect_entries d clk (populate_submissions d (submissions ev)) [] = Inr lb0"
    and lb: "lb = assign_ranks (sort_by by_totalScore lb0)"
    by (auto elim!: rebuild_leaderboard_success)
  let ?ps = "populate_submissions d (submissions ev)"
  let ?comb = "\<lambda>p::oid \<times> submission. totalScore (judging (snd p)) + publicVotes (voting (snd p)) * 10"
  let ?el = "\<lambda>p::oid \<times> submission. status (snd p) = Submitted \<and> totalScore (judging (snd p)) > 0"
  have pairs: "map (\<lambda>e. (entry_submission e, entry_totalScore e)) lb0
                 = map (\<lambda>p. (fst p, ?comb p)) (filter ?el ?ps)"
    using collect_entries_pairs [OF lb0] by simp
  have c1: "updateEventLeaderboard d clk eventId = (d', lb)"
    by (simp add: updateEventLeaderboard_def ok)
  have c2: "map_option leaderboard (Event d' eventId) = Some lb"
    by (rule rebuild_persisted [OF ok])
  have c3: "sorted_wrt (\<lambda>a b. entry_totalScore a \<ge> entry_totalScore b) lb"
    by (rule rebuild_sorted [OF ok])
  have c4: "map rank lb = [1 ..< length lb + 1]"
    by (rule rebuild_ranks [OF ok])
  have c5: "\<exists>s. Submission d (entry_submission e) = Some s
               \<and> entry_totalScore e = totalScore (judging s) + publicVotes (voting s) * 10"
    if "e \<in> set lb" for e
  proof -
    from that have "(entry_submission e, entry_totalScore e)
        \<in> (\<lambda>e. (entry_submission e, entry_totalScore e)) ` set lb" by blast
    then have "(entry_submission e, entry_totalScore e)
        \<in> (\<lambda>e. (entry_submission e, entry_totalScore e)) ` set lb0"
      by (simp only: lb ranked_sorted_pairs_set)
    then have "(entry_submission e, entry_totalScore e)
        \<in> set (map (\<lambda>p. (fst p, ?comb p)) (filter ?el ?ps))"
      by (simp only: pairs [symmetric] set_map)
    then obtain p where p: "p \<in> set ?ps" "entry_submission e = fst p" "entry_totalScore e = ?comb p"
      by auto
    from p(1) have "Submission d (fst p) = Some (snd p)"
      using populate_submissions_lookup [of "fst p" "snd p" d "submissions ev"] by simp
    with p show ?thesis by simp
  qed
  have c6: "map entry_submission (filter (\<lambda>e. entry_totalScore e = k) lb)
           = map fst (filter (\<lambda>p. ?el p \<and> ?comb p = k) ?ps)" for k
  proof -
    have "map entry_submission (filter (\<lambda>e. entry_totalScore e = k) lb)
            = map entry_submission (filter (\<lambda>e. entry_totalScore e = k) lb0)"
      by (simp only: lb ranked_sorted_filter)
    also have "\<dots> = map fst (filter (\<lambda>p. snd p = k) (map (\<lambda>p. (fst p, ?comb p)) (filter ?el ?ps)))"
      by (simp only: pairs_filter pairs)
    also have "\<dots> = map fst (filter (\<lambda>p. ?el p \<and> ?comb p = k) ?ps)"
      by (simp add: filter_map comp_def conj_commute)
    finally show ?thesis .
  qed
  have c6': "map entry_submission (filter (\<lambda>e. entry_totalScore e = k) lb)
           = map fst (filter (\<lambda>p. status (snd p) = Submitted \<and> totalScore (judging (snd p)) > 0
                                 \<and> ?comb p = k) ?ps)" for k
    using c6 [of k] by (simp only: conj_assoc)
  show ?thesis
    using c1 c2 c3 c4 c5 c6' by (intro conjI ballI allI)
qed

lemma db0_event: "Event db0 1 = Some event1"
  by (simp add: db0_def)

lemma db0_rebuild:
  "\<exists>d' lb. rebuild_leaderboard db0 clk0 1 = Inr (d', lb)
     \<and> map (\<lambda>e. (entry_submission e, entry_totalScore e, rank e)) lb
         = [(10, 185, 1), (11, 185, 2), (12, 90, 3)]"
  by (simp add: example_defs rebuild_leaderboard_def event_pre_save_def populate_submissions_def
      List.map_filter_def assign_ranks_def by_totalScore_def Let_def)

theorem recompute_sorted_dense_stable_witness:
  "\<exists>d' lb. rebuild_leaderboard db0 clk0 1 = Inr (d', lb)
     \<and> updateEventLeaderboard db0 clk0 1 = (d', lb)
     \<and> map_option leaderboard (Event d' 1) = Some lb
     \<and> map (\<lambda>e. (entry_submission e, entry_totalScore e, rank e)) lb
         = [(10, 185, 1), (11, 185, 2), (12, 90, 3)]
     \<and> sorted_wrt (\<lambda>a b. entry_totalScore a \<ge> entry_totalScore b) lb
     \<and> map rank lb = [1 ..< length lb + 1]
     \<and> (\<forall>e \<in> set lb. \<exists>s. Submission db0 (entry_submission e) = Some s
           \<and> entry_totalScore e = totalScore (judging s) + publicVotes (voting s) * 10)"
proof -
  from db0_rebuild obtain d' lb where
    ok: "rebuild_leaderboard db0 clk0 1 = Inr (d', lb)"
    and lb: "map (\<lambda>e. (entry_submission e, entry_totalScore e, rank e)) lb
               = [(10, 185, 1), (11, 185, 2), (12, 90, 3)]"
    by (elim exE conjE)
  note props = recompute_sorted_dense_stable [OF db0_event ok]
  show ?thesis
    apply (insert props ok lb)
    apply (intro exI [of _ d'] exI [of _ lb] conjI)
          apply (elim conjE, assumption)+
    done
qed

section \<open>The pre-save hook and autoJudge: properties\<close>

lemma foldl_score_sum:
  "foldl (\<lambda>sum sc. sum + score sc) a xs = a + sum_list (map score xs)"
  by (induction xs arbitrary: a) simp_all

lemma pre_save_scores: "scores (judging (pre_save s)) = scores (judging s)"
  by (simp add: pre_save_def Let_def)

lemma pre_save_judging_status: "judging_status (judging (pre_save s)) = judging_status (judging s)"
  by (simp add: pre_save_def Let_def)

lemma pre_save_votes: "votes (voting (pre_save s)) = votes (voting s)"
  by (simp add: pre_save_def Let_def)

lemma pre_save_metadata: "metadata (pre_save s) = metadata s"
  by (simp add: pre_save_def Let_def)

lemma pre_save_total_nonempty:
  "scores (judging s) \<noteq> [] \<Longrightarrow>
   totalScore (judging (pre_save s)) = sum_list (map score (scores (judging s)))
   \<and> averageScore (judging (pre_save s))
       = sum_list (map score (scores (judging s))) / of_nat (length (scores (judging s)))"
  by (simp add: pre_save_def Let_def foldl_score_sum)

lemma pre_save_total_empty:
  "scores (judging s) = [] \<Longrightarrow>
   totalScore (judging (pre_save s)) = totalScore (judging s)
   \<and> averageScore (judging (pre_save s)) = averageScore (judging s)"
  by (simp add: pre_save_def Let_def)

lemma auto_scores_spec:
  "map (\<lambda>r. (criterion r, score r)) (auto_scores clk m) = spec_scores m"
  by (cases "innovation m"; cases "technologies m"; cases "linesOfCode m"; cases "completeness m";
      cases "documentation m"; cases "presentation m")
     (simp_all add: auto_scores_def spec_scores_def spec_rating_def spec_complexity_def push_auto_def Let_def)

lemma auto_scores_fields:
  "r \<in> set (auto_scores clk m) \<Longrightarrow> maxScore r = 100 \<and> judge r = None \<and> score_feedback r = None"
  by (auto simp: auto_scores_def push_auto_def Let_def split: if_splits)

lemma auto_scores_timestamps:
  "map timestamp (auto_scores clk m) = map clk [0 ..< length (auto_scores clk m)]"
  by (simp add: auto_scores_def push_auto_def Let_def)

lemma auto_scores_clock_free:
  "map (\<lambda>r. (criterion r, score r, maxScore r, judge r, score_feedback r)) (auto_scores clk m)
   = map (\<lambda>r. (criterion r, score r, maxScore r, judge r, score_feedback r)) (auto_scores clk' m)"
  by (simp add: auto_scores_def push_auto_def Let_def)

lemma spec_rating_range:
  "rating_ok r \<Longrightarrow> p \<in> set (spec_rating c r) \<Longrightarrow> 0 \<le> snd p \<and> snd p \<le> 100"
  by (auto simp: spec_rating_def rating_ok_def split: option.splits if_splits)

lemma spec_complexity_range:
  assumes "\<forall>n. loc = Some n \<longrightarrow> 0 \<le> n" and "p \<in> set (spec_complexity ts loc)"
  shows "0 \<le> snd p \<and> snd p \<le> 100"
proof -
  from assms(2) obtain techs n where ts: "ts = Some techs" and loc: "loc = Some n" and n0: "n \<noteq> 0"
    and p: "snd p = min (of_nat (length techs) * 10) 50 + min (n / 100) 50"
    by (auto simp: spec_complexity_def split: option.splits if_splits)
  from assms(1) loc have "0 \<le> n" by simp
  then have "0 \<le> min (n / 100) 50" by simp
  moreover have "(0::rat) \<le> min (of_nat (length techs) * 10) 50" by simp
  moreover have "min (of_nat (length techs) * 10) 50 \<le> (50::rat)" by simp
  moreover have "min (n / 100) 50 \<le> (50::rat)" by simp
  ultimately show ?thesis using p by linarith
qed

lemma spec_scores_range:
  assumes "rating_ok (innovation m)" "rating_ok (completeness m)" "rating_ok (documentation m)"
    "rating_ok (presentation m)" "\<forall>n. linesOfCode m = Some n \<longrightarrow> 0 \<le> n"
    and "p \<in> set (spec_scores m)"
  shows "0 \<le> snd p \<and> snd p \<le> 100"
  using assms spec_rating_range spec_complexity_range [of "linesOfCode m" p "technologies m"]
  unfolding spec_scores_def set_append Un_iff by blast

text \<open>
  C4 (amended). \<^verbatim>\<open>autoJudge\<close> overwrites the score list of a submission from
  its metadata, with one record per metric whose value is defined and not zero, in the order
  Innovation, Technical Complexity, Completeness, Documentation, Presentation:
  a rating gives \<open>rating * 10\<close>, Technical Complexity (technologies defined,
  linesOfCode defined and not zero) gives
  \<open>min (technologyCount * 10) 50 + min (linesOfCode / 100) 50\<close>; every record has
  maxScore 100 and no judge; the judging status becomes judged. With ratings in 1..10
  and a non-negative linesOfCode every score lies between 0 and 100.
\<close>

theorem autoJudge_score_records:
  assumes md: "metadata s = m"
  shows "\<exists>s'. autoJudge clk s = Inr s'
    \<and> scores (judging s') = auto_scores clk m
    \<and> map (\<lambda>r. (criterion r, score r)) (scores (judging s')) = spec_scores m
    \<and> (\<forall>r \<in> set (scores (judging s')). maxScore r = 100 \<and> judge r = None)
    \<and> judging_status (judging s') = Judged
    \<and> (rating_ok (innovation m) \<and> rating_ok (completeness m) \<and> rating_ok (documentation m)
         \<and> rating_ok (presentation m) \<and> (\<forall>n. linesOfCode m = Some n \<longrightarrow> 0 \<le> n)
        \<longrightarrow> (\<forall>r \<in> set (scores (judging s')). 0 \<le> score r \<and> score r \<le> 100))"
proof -
  let ?s' = "pre_save (s\<lparr>judging := (judging s)\<lparr>scores := auto_scores clk m, judging_status := Judged\<rparr>\<rparr>)"
  have run: "autoJudge clk s = Inr ?s'"
    by (simp add: autoJudge_def md)
  have sc: "scores (judging ?s') = auto_scores clk m"
    by (simp add: pre_save_scores)
  have st: "judging_status (judging ?s') = Judged"
    by (simp add: pre_save_judging_status)
  have range: "0 \<le> score r \<and> score r \<le> 100"
    if ok: "rating_ok (innovation m)" "rating_ok (completeness m)" "rating_ok (documentation m)"
      "rating_ok (presentation m)" "\<forall>n. linesOfCode m = Some n \<longrightarrow> 0 \<le> n"
      and r: "r \<in> set (auto_scores clk m)" for r
  proof -
    from r have "(criterion r, score r) \<in> set (map (\<lambda>r. (criterion r, score r)) (auto_scores clk m))"
      by (simp add: image_iff) blast
    then have "(criterion r, score r) \<in> set (spec_scores m)"
      by (simp only: auto_scores_spec)
    from spec_scores_range [OF ok this] show ?thesis by simp
  qed
  have fields: "\<forall>r \<in> set (scores (judging ?s')). maxScore r = 100 \<and> judge r = None"
    unfolding sc using auto_scores_fields by blast
  have spec: "map (\<lambda>r. (criterion r, score r)) (scores (judging ?s')) = spec_scores m"
    unfolding sc by (rule auto_scores_spec)
  have rng: "rating_ok (innovation m) \<and> rating_ok (completeness m) \<and> rating_ok (documentation m)
         \<and> rating_ok (presentation m) \<and> (\<forall>n. linesOfCode m = Some n \<longrightarrow> 0 \<le> n)
        \<longrightarrow> (\<forall>r \<in> set (scores (judging ?s')). 0 \<le> score r \<and> score r \<le> 100)"
    unfolding sc using range by blast
  from run sc spec fields st rng show ?thesis
    by (intro exI [of _ ?s'] conjI)
qed

lemma scenario_scores:
  "spec_scores scenario_metadata =
     [(''Innovation'', 80), (''Technical Complexity'', 33), (''Completeness'', 90),
      (''Documentation'', 50), (''Presentation'', 70)]"
  by (simp add: spec_scores_def spec_rating_def spec_complexity_def scenario_metadata_def)

theorem autoJudge_score_records_witness:
  "\<exists>s'. autoJudge clk0 scenario_submission = Inr s'
    \<and> map (\<lambda>r. (criterion r, score r)) (scores (judging s')) =
        [(''Innovation'', 80), (''Technical Complexity'', 33), (''Completeness'', 90),
         (''Documentation'', 50), (''Presentation'', 70)]
    \<and> judging_status (judging s') = Judged
    \<and> scores (judging s') \<noteq> []
    \<and> (\<forall>r \<in> set (scores (judging s')). maxScore r = 100 \<and> 0 \<le> score r \<and> score r \<le> 100)"
proof -
  have md: "metadata scenario_submission = scenario_metadata"
    by (simp add: scenario_submission_def new_submission_def)
  have ok: "rating_ok (innovation scenario_metadata) \<and> rating_ok (completeness scenario_metadata)
      \<and> rating_ok (documentation scenario_metadata) \<and> rating_ok (presentation scenario_metadata)
      \<and> (\<forall>n. linesOfCode scenario_metadata = Some n \<longrightarrow> 0 \<le> n)"
    by (simp add: scenario_metadata_def rating_ok_def)
  from autoJudge_score_records [OF md, of clk0] obtain s' where
    s': "autoJudge clk0 scenario_submission = Inr s'"
      "map (\<lambda>r. (criterion r, score r)) (scores (judging s')) = spec_scores scenario_metadata"
      "\<forall>r \<in> set (scores (judging s')). maxScore r = 100 \<and> judge r = None"
      "judging_status (judging s') = Judged"
      "rating_ok (innovation scenario_metadata) \<and> rating_ok (completeness scenario_metadata)
        \<and> rating_ok (documentation scenario_metadata) \<and> rating_ok (presentation scenario_metadata)
        \<and> (\<forall>n. linesOfCode scenario_metadata = Some n \<longrightarrow> 0 \<le> n)
       \<longrightarrow> (\<forall>r \<in> set (scores (judging s')). 0 \<le> score r \<and> score r \<le> 100)"
    by blast
  from s'(5) ok have rng: "\<forall>r \<in> set (scores (judging s')). 0 \<le> score r \<and> score r \<le> 100"
    by blast
  from s'(2) have ne: "scores (judging s') \<noteq> []"
    by (auto simp: scenario_scores)
  from s'(1) s'(2) s'(3) s'(4) rng ne show ?thesis
    by (auto simp: scenario_scores)
qed

text \<open>
  C4 as stated fails where a present metric is zero: with one technology and
  \<open>linesOfCode = 0\<close> the claim's formula gives a Technical Complexity record of
  score 10, and \<^verbatim>\<open>autoJudge\<close> produces no record.
\<close>

theorem autoJudge_zero_loc_counterexample:
  "metadata (new_submission 1 20 zero_loc_metadata Submitted) = zero_loc_metadata
   \<and> technologies zero_loc_metadata = Some [''a''] \<and> linesOfCode zero_loc_metadata = Some 0
   \<and> (\<exists>s'. autoJudge clk0 (new_submission 1 20 zero_loc_metadata Submitted) = Inr s'
         \<and> scores (judging s') = [])"
  by (simp add: autoJudge_def new_submission_def zero_loc_metadata_def auto_scores_def pre_save_def)

lemma autoJudge_total: "\<exists>s'. autoJudge clk s = Inr s'"
  by (simp add: autoJudge_def)

lemma autoJudge_scores:
  "autoJudge clk s = Inr s' \<Longrightarrow> scores (judging s') = auto_scores clk (metadata s)"
  by (auto simp: autoJudge_def pre_save_scores)

lemma autoJudge_judged:
  "autoJudge clk s = Inr s' \<Longrightarrow> judging_status (judging s') = Judged"
  by (auto simp: autoJudge_def pre_save_judging_status)

lemma auto_scores_no_metric:
  assumes "linesOfCode m = None" "innovation m = None" "completeness m = None"
    "documentation m = None" "presentation m = None"
  shows "auto_scores clk m = []"
  using assms by (simp add: auto_scores_def)

text \<open>
  C8 (amended). On a submission whose metadata is entirely absent (no number of the
  metadata block is set) \<^verbatim>\<open>autoJudge\<close> raises no error, neither a validation
  error nor another one, and produces no score record: the call completes, and the
  score list of the document it returns is empty.
\<close>

theorem autoJudge_absent_metadata:
  assumes "linesOfCode (metadata s) = None" "innovation (metadata s) = None"
    "completeness (metadata s) = None" "documentation (metadata s) = None"
    "presentation (metadata s) = None"
  shows "(\<exists>s'. autoJudge clk s = Inr s' \<and> scores (judging s') = [])
    \<and> (\<forall>e. autoJudge clk s \<noteq> Inl e)"
proof -
  obtain s' where run: "autoJudge clk s = Inr s'"
    using autoJudge_total by blast
  then have no_error: "\<forall>e. autoJudge clk s \<noteq> Inl e"
    by simp
  have "scores (judging s') = []"
    by (simp only: autoJudge_scores [OF run] auto_scores_no_metric [OF assms])
  with run no_error show ?thesis
    by blast
qed

theorem autoJudge_absent_metadata_witness:
  "linesOfCode empty_metadata = None \<and> innovation empty_metadata = None
   \<and> completeness empty_metadata = None \<and> documentation empty_metadata = None
   \<and> presentation empty_metadata = None
   \<and> metadata (new_submission 1 20 empty_metadata Submitted) = empty_metadata
   \<and> (\<exists>s'. autoJudge clk0 (new_submission 1 20 empty_metadata Submitted) = Inr s'
         \<and> scores (judging s') = [])
   \<and> autoJudge clk0 (new_submission 1 20 empty_metadata Submitted) \<noteq> Inl ValidationError"
proof -
  have md: "metadata (new_submission 1 20 empty_metadata Submitted) = empty_metadata"
    by (simp add: new_submission_def)
  have h: "linesOfCode empty_metadata = None" "innovation empty_metadata = None"
    "completeness empty_metadata = None" "documentation empty_metadata = None"
    "presentation empty_metadata = None"
    by (simp_all add: empty_metadata_def)
  note props = autoJudge_absent_metadata [of "new_submission 1 20 empty_metadata Submitted" clk0,
      unfolded md, OF h]
  from props have run: "\<exists>s'. autoJudge clk0 (new_submission 1 20 empty_metadata Submitted) = Inr s'
         \<and> scores (judging s') = []"
    and no_error: "autoJudge clk0 (new_submission 1 20 empty_metadata Submitted) \<noteq> Inl ValidationError"
    by blast+
  from h md run no_error show ?thesis
    by (intro conjI)
qed

text \<open>
  C8 as stated fails: on a submission created without metadata the call is not a
  validation error. It returns the saved document, here with an empty score list and
  the status judged.
\<close>

theorem autoJudge_no_error_counterexample:
  "metadata (new_submission 1 20 empty_metadata Submitted) = empty_metadata
   \<and> autoJudge clk0 (new_submission 1 20 empty_metadata Submitted) \<noteq> Inl ValidationError
   \<and> autoJudge clk0 (new_submission 1 20 empty_metadata Submitted)
       = Inr ((new_submission 1 20 empty_metadata Submitted)
               \<lparr>judging := \<lparr>scores = [], totalScore = 0, averageScore = 0,
                            judging_status = Judged\<rparr>\<rparr>)"
  by (simp add: autoJudge_def new_submission_def empty_metadata_def auto_scores_def pre_save_def)

lemma autoJudge_overwrites:
  assumes "autoJudge clk1 s = Inr s1"
  shows "autoJudge clk2 s1 = autoJudge clk2 s"
proof -
  let ?m = "metadata s"
  from assms have s1: "s1 = pre_save (s\<lparr>judging := (judging s)\<lparr>scores := auto_scores clk1 ?m,
                                                   judging_status := Judged\<rparr>\<rparr>)"
    by (simp add: autoJudge_def)
  have m1: "metadata s1 = ?m" by (simp add: s1 pre_save_metadata)
  have "length (map (\<lambda>r. (criterion r, score r, maxScore r, judge r, score_feedback r)) (auto_scores clk1 ?m))
      = length (map (\<lambda>r. (criterion r, score r, maxScore r, judge r, score_feedback r)) (auto_scores clk2 ?m))"
    by (simp only: auto_scores_clock_free [of clk1 ?m clk2])
  then have len: "length (auto_scores clk1 ?m) = length (auto_scores clk2 ?m)"
    by simp
  then have emp: "auto_scores clk1 ?m = [] \<longleftrightarrow> auto_scores clk2 ?m = []"
    by (metis length_0_conv)
  have "pre_save (s1\<lparr>judging := (judging s1)\<lparr>scores := auto_scores clk2 ?m, judging_status := Judged\<rparr>\<rparr>)
      = pre_save (s\<lparr>judging := (judging s)\<lparr>scores := auto_scores clk2 ?m, judging_status := Judged\<rparr>\<rparr>)"
    by (cases "auto_scores clk2 ?m = []") (simp_all add: s1 pre_save_def Let_def emp)
  then show ?thesis
    by (simp add: autoJudge_def m1)
qed

text \<open>
  C5 (amended). \<^verbatim>\<open>autoJudge\<close> always completes. A second invocation on the
  result of a first leaves the submission as one invocation at that time does, and an
  invocation with the same clock readings changes nothing. The two score lists agree
  record by record in criterion, score, maxScore, judge and feedback; the timestamp of
  the k-th record is the k-th clock reading of its own invocation.
\<close>

theorem autoJudge_repeated:
  "\<exists>s1 s2. autoJudge clk1 s = Inr s1 \<and> autoJudge clk2 s1 = Inr s2
     \<and> autoJudge clk2 s = Inr s2
     \<and> autoJudge clk1 s1 = Inr s1
     \<and> map (\<lambda>r. (criterion r, score r, maxScore r, judge r, score_feedback r)) (scores (judging s2))
       = map (\<lambda>r. (criterion r, score r, maxScore r, judge r, score_feedback r)) (scores (judging s1))
     \<and> map timestamp (scores (judging s1)) = map clk1 [0 ..< length (scores (judging s1))]
     \<and> map timestamp (scores (judging s2)) = map clk2 [0 ..< length (scores (judging s2))]"
proof -
  obtain s1 where s1: "autoJudge clk1 s = Inr s1"
    using autoJudge_total by blast
  obtain s2 where s2: "autoJudge clk2 s = Inr s2"
    using autoJudge_total by blast
  have twice: "autoJudge clk2 s1 = Inr s2"
    using autoJudge_overwrites [OF s1, of clk2] s2 by simp
  have same: "autoJudge clk1 s1 = Inr s1"
    using autoJudge_overwrites [OF s1, of clk1] s1 by simp
  have fields: "map (\<lambda>r. (criterion r, score r, maxScore r, judge r, score_feedback r)) (scores (judging s2))
       = map (\<lambda>r. (criterion r, score r, maxScore r, judge r, score_feedback r)) (scores (judging s1))"
    by (simp add: autoJudge_scores [OF s1] autoJudge_scores [OF s2]
          auto_scores_clock_free [of clk2 "metadata s" clk1])
  have t1: "map timestamp (scores (judging s1)) = map clk1 [0 ..< length (scores (judging s1))]"
    by (simp only: autoJudge_scores [OF s1] auto_scores_timestamps)
  have t2: "map timestamp (scores (judging s2)) = map clk2 [0 ..< length (scores (judging s2))]"
    by (simp only: autoJudge_scores [OF s2] auto_scores_timestamps)
  from s1 s2 twice same fields t1 t2 show ?thesis
    by (intro exI [of _ s1] exI [of _ s2] conjI)
qed

theorem autoJudge_repeated_witness:
  "\<exists>s1 s2. autoJudge clk0 scenario_submission = Inr s1 \<and> autoJudge late_clock s1 = Inr s2
     \<and> autoJudge late_clock scenario_submission = Inr s2
     \<and> map (\<lambda>r. (criterion r, score r)) (scores (judging s2))
       = map (\<lambda>r. (criterion r, score r)) (scores (judging s1))
     \<and> map (\<lambda>r. (criterion r, score r)) (scores (judging s1))
       = [(''Innovation'', 80), (''Technical Complexity'', 33), (''Completeness'', 90),
          (''Documentation'', 50), (''Presentation'', 70)]
     \<and> map timestamp (scores (judging s1)) = [1000, 1001, 1002, 1003, 1004]
     \<and> map timestamp (scores (judging s2)) = [2000, 2001, 2002, 2003, 2004]"
proof -
  have md: "metadata scenario_submission = scenario_metadata"
    by (simp add: scenario_submission_def new_submission_def)
  from autoJudge_repeated [of clk0 scenario_submission late_clock] obtain s1 s2 where
    r: "autoJudge clk0 scenario_submission = Inr s1" "autoJudge late_clock s1 = Inr s2"
      "autoJudge late_clock scenario_submission = Inr s2"
      "map (\<lambda>r. (criterion r, score r, maxScore r, judge r, score_feedback r)) (scores (judging s2))
       = map (\<lambda>r. (criterion r, score r, maxScore r, judge r, score_feedback r)) (scores (judging s1))"
      "map timestamp (scores (judging s1)) = map clk0 [0 ..< length (scores (judging s1))]"
      "map timestamp (scores (judging s2)) = map late_clock [0 ..< length (scores (judging s2))]"
    by (elim exE conjE)
  have "map (\<lambda>r. (criterion r, score r)) (scores (judging s2))
       = map (\<lambda>p. (fst p, fst (snd p)))
           (map (\<lambda>r. (criterion r, score r, maxScore r, judge r, score_feedback r)) (scores (judging s2)))"
    by simp
  also have "\<dots> = map (\<lambda>r. (criterion r, score r)) (scores (judging s1))"
    by (simp only: r(4)) simp
  finally have eq: "map (\<lambda>r. (criterion r, score r)) (scores (judging s2))
       = map (\<lambda>r. (criterion r, score r)) (scores (judging s1))" .
  have "map (\<lambda>r. (criterion r, score r)) (scores (judging s1)) = spec_scores scenario_metadata"
    by (simp add: autoJudge_scores [OF r(1)] md auto_scores_spec)
  then have sc: "map (\<lambda>r. (criterion r, score r)) (scores (judging s1))
       = [(''Innovation'', 80), (''Technical Complexity'', 33), (''Completeness'', 90),
          (''Documentation'', 50), (''Presentation'', 70)]"
    by (simp only: scenario_scores)
  have "length (map (\<lambda>r. (criterion r, score r)) (scores (judging s1))) = 5"
    by (simp only: sc) simp
  then have l1: "length (scores (judging s1)) = 5"
    by simp
  have "length (map (\<lambda>r. (criterion r, score r)) (scores (judging s2))) = 5"
    by (simp only: eq sc) simp
  then have l2: "length (scores (judging s2)) = 5"
    by simp
  from r(5) r(6) have t1: "map timestamp (scores (judging s1)) = [1000, 1001, 1002, 1003, 1004]"
    and t2: "map timestamp (scores (judging s2)) = [2000, 2001, 2002, 2003, 2004]"
    by (simp_all add: l1 l2 clk0_def late_clock_def upt_rec)
  from r(1) r(2) r(3) eq sc t1 t2 show ?thesis
    by (intro exI [of _ s1] exI [of _ s2] conjI)
qed

text \<open>
  C5 as stated fails: two invocations on unchanged metadata at different times give
  score lists that differ in the timestamps.
\<close>

theorem autoJudge_timestamp_counterexample:
  "\<exists>s1 s2. autoJudge clk0 scenario_submission = Inr s1 \<and> autoJudge late_clock s1 = Inr s2
     \<and> metadata s1 = metadata scenario_submission
     \<and> scores (judging s2) \<noteq> scores (judging s1)
     \<and> map timestamp (scores (judging s1)) = [1000, 1001, 1002, 1003, 1004]
     \<and> map timestamp (scores (judging s2)) = [2000, 2001, 2002, 2003, 2004]"
  by (simp add: autoJudge_def scenario_submission_def scenario_metadata_def new_submission_def
      auto_scores_def push_auto_def pre_save_def clk0_def late_clock_def Let_def)

section \<open>Votes and judge scores\<close>

lemma updateEventLeaderboard_Submission:
  "Submission (fst (updateEventLeaderboard d clk e)) = Submission d"
  by (auto simp: updateEventLeaderboard_def rebuild_leaderboard_def event_pre_save_def Let_def
           split: option.splits sum.splits)

lemma updateEventLeaderboard_Team:
  "Team (fst (updateEventLeaderboard d clk e)) = Team d"
  by (auto simp: updateEventLeaderboard_def rebuild_leaderboard_def event_pre_save_def Let_def
           split: option.splits sum.splits)


lemma overwrite_first_users: "map user (overwrite_first u sc t vs) = map user vs"
  by (induction vs) simp_all

lemma overwrite_first_others:
  "filter (\<lambda>v. user v \<noteq> u) (overwrite_first u sc t vs) = filter (\<lambda>v. user v \<noteq> u) vs"
  by (induction vs) simp_all

lemma overwrite_first_find:
  "u \<in> user ` set vs \<Longrightarrow>
   find (\<lambda>v. user v = u) (overwrite_first u sc t vs) = Some \<lparr>user = u, vote_score = sc, vote_timestamp = t\<rparr>"
  by (induction vs) auto

lemma find_user_None: "find (\<lambda>v. user v = u) vs = None \<longleftrightarrow> u \<notin> user ` set vs"
  by (induction vs) auto

lemma cast_vote_existing:
  "u \<in> user ` set vs \<Longrightarrow> cast_vote u sc t vs = overwrite_first u sc t vs"
  by (cases "find (\<lambda>v. user v = u) vs") (simp_all add: cast_vote_def find_user_None)

lemma cast_vote_new:
  "u \<notin> user ` set vs \<Longrightarrow> cast_vote u sc t vs = vs @ [\<lparr>user = u, vote_score = sc, vote_timestamp = t\<rparr>]"
  by (simp add: cast_vote_def find_user_None [THEN iffD2])

lemma cast_vote_distinct:
  "distinct (map user vs) \<Longrightarrow> distinct (map user (cast_vote u sc t vs))"
  by (cases "u \<in> user ` set vs") (simp_all add: cast_vote_existing cast_vote_new overwrite_first_users)

lemma vote_route_saved:
  assumes s: "Submission d sid = Some s"
    and ok: "vote_route d clk u sid sc = (d', Inr r)"
  shows "Submission d' sid
           = Some (pre_save (s\<lparr>voting := (voting s)\<lparr>votes := cast_vote u sc (clk 0) (votes (voting s))\<rparr>\<rparr>))"
proof -
  let ?s1 = "pre_save (s\<lparr>voting := (voting s)\<lparr>votes := cast_vote u sc (clk 0) (votes (voting s))\<rparr>\<rparr>)"
  let ?d1 = "d\<lparr>Submission := (Submission d)(sid \<mapsto> ?s1)\<rparr>"
  from ok s have "d' = fst (updateEventLeaderboard ?d1 (\<lambda>k. clk (Suc k)) (event s))"
    by (auto simp: vote_route_def save_submission_def Let_def split: if_splits option.splits prod.splits)
  then show ?thesis
    by (simp add: updateEventLeaderboard_Submission)
qed

lemmas route_defs = updateEventLeaderboard_def rebuild_leaderboard_def event_pre_save_def
  populate_submissions_def
  List.map_filter_def assign_ranks_def by_totalScore_def save_submission_def Let_def

lemma db0_sub_a: "Submission db0 10 = Some sub_a"
  by (simp add: db0_def)

lemma db0_sub_c: "Submission db0 12 = Some sub_c"
  by (simp add: db0_def)

lemma db0_vote: "snd (vote_route db0 clk0 7 10 2) = Inr (7 / 2)"
  by (simp add: vote_route_def example_defs route_defs cast_vote_def)

lemma db0_judge: "snd (judge_route db0 clk0 5 10 rescore None) = Inr 110"
  by (simp add: judge_route_def example_defs route_defs rescore_def add_feedback_def)

text \<open>
  C6. A successful vote stores the submission with the vote list of the upsert. When
  the user already has a vote, no record is added (the user keys are the same list as
  before), the user's vote now carries the new score and the time of the request, and
  the votes of all other users are unchanged. A vote list with unique user keys keeps
  unique user keys.
\<close>

theorem vote_overwrites_in_place:
  assumes s: "Submission d sid = Some s"
    and ok: "vote_route d clk u sid sc = (d', Inr r)"
  shows "\<exists>s'. Submission d' sid = Some s'
    \<and> votes (voting s') = cast_vote u sc (clk 0) (votes (voting s))
    \<and> (u \<in> user ` set (votes (voting s)) \<longrightarrow>
          map user (votes (voting s')) = map user (votes (voting s))
          \<and> find (\<lambda>v. user v = u) (votes (voting s'))
              = Some \<lparr>user = u, vote_score = sc, vote_timestamp = clk 0\<rparr>
          \<and> filter (\<lambda>v. user v \<noteq> u) (votes (voting s')) = filter (\<lambda>v. user v \<noteq> u) (votes (voting s)))
    \<and> (distinct (map user (votes (voting s))) \<longrightarrow> distinct (map user (votes (voting s'))))"
proof -
  let ?s1 = "pre_save (s\<lparr>voting := (voting s)\<lparr>votes := cast_vote u sc (clk 0) (votes (voting s))\<rparr>\<rparr>)"
  have saved: "Submission d' sid = Some ?s1"
    by (rule vote_route_saved [OF s ok])
  have vs: "votes (voting ?s1) = cast_vote u sc (clk 0) (votes (voting s))"
    by (simp add: pre_save_votes)
  have ex: "u \<in> user ` set (votes (voting s)) \<longrightarrow>
          map user (votes (voting ?s1)) = map user (votes (voting s))
          \<and> find (\<lambda>v. user v = u) (votes (voting ?s1))
              = Some \<lparr>user = u, vote_score = sc, vote_timestamp = clk 0\<rparr>
          \<and> filter (\<lambda>v. user v \<noteq> u) (votes (voting ?s1)) = filter (\<lambda>v. user v \<noteq> u) (votes (voting s))"
    unfolding vs
    by (simp add: cast_vote_existing overwrite_first_users overwrite_first_find overwrite_first_others)
  have di: "distinct (map user (votes (voting s))) \<longrightarrow> distinct (map user (votes (voting ?s1)))"
    unfolding vs by (simp add: cast_vote_distinct)
  from saved vs ex di show ?thesis
    by (intro exI [of _ ?s1] conjI)
qed

theorem vote_overwrites_in_place_witness:
  "\<exists>s'. Submission (fst (vote_route db0 clk0 7 10 2)) 10 = Some s'
     \<and> map (\<lambda>v. (user v, vote_score v, vote_timestamp v)) (votes (voting sub_a))
         = [(7, 4, 600), (8, 5, 600)]
     \<and> map (\<lambda>v. (user v, vote_score v, vote_timestamp v)) (votes (voting s'))
         = [(7, 2, 1000), (8, 5, 600)]
     \<and> distinct (map user (votes (voting s')))"
proof -
  have ok: "vote_route db0 clk0 7 10 2 = (fst (vote_route db0 clk0 7 10 2), Inr (7 / 2))"
    using db0_vote by (simp add: prod_eq_iff)
  have before: "map (\<lambda>v. (user v, vote_score v, vote_timestamp v)) (votes (voting sub_a))
         = [(7, 4, 600), (8, 5, 600)]"
    by (simp add: example_defs)
  then have has: "7 \<in> user ` set (votes (voting sub_a))" and di: "distinct (map user (votes (voting sub_a)))"
    by (simp_all add: example_defs)
  from vote_overwrites_in_place [OF db0_sub_a ok] obtain s' where
    s': "Submission (fst (vote_route db0 clk0 7 10 2)) 10 = Some s'"
      "votes (voting s') = cast_vote 7 2 (clk0 0) (votes (voting sub_a))"
      "distinct (map user (votes (voting sub_a))) \<longrightarrow> distinct (map user (votes (voting s')))"
    by blast
  have after: "map (\<lambda>v. (user v, vote_score v, vote_timestamp v)) (votes (voting s'))
         = [(7, 2, 1000), (8, 5, 600)]"
    by (simp add: s'(2) example_defs cast_vote_def)
  from s'(1) before after s'(3) di show ?thesis
    by (intro exI [of _ s'] conjI) simp_all
qed

lemma remove_judge_filter:
  "remove_judge u scs = Inr kept \<Longrightarrow> kept = filter (\<lambda>sc. judge sc \<noteq> Some u) scs"
  by (induction scs arbitrary: kept) (auto split: option.splits sum.splits if_splits)

lemma remove_judge_ok:
  "(\<exists>kept. remove_judge u scs = Inr kept) \<longleftrightarrow> (\<forall>sc \<in> set scs. judge sc \<noteq> None)"
  by (induction scs) (auto split: option.splits sum.splits)

lemma push_scores_append:
  "push_scores clk u k new acc = acc @ push_scores clk u k new []"
proof (induction new arbitrary: k acc)
  case Nil
  then show ?case by simp
next
  case (Cons x xs)
  show ?case
    by (simp add: Cons.IH [of _ "acc @ _"] Cons.IH [of _ "[_]"])
qed

lemma push_scores_judge:
  "sc \<in> set (push_scores clk u k new []) \<Longrightarrow> judge sc = Some u"
proof (induction new arbitrary: k)
  case Nil
  then show ?case by simp
next
  case (Cons x xs)
  from Cons.prems have "sc \<in> set ([\<lparr>criterion = sd_criterion x, score = sd_score x,
        maxScore = (if truthy (sd_maxScore x) then the (sd_maxScore x) else 100),
        judge = Some u, score_feedback = sd_feedback x, timestamp = clk k\<rparr>]
      @ push_scores clk u (Suc k) xs [])"
    using push_scores_append [of clk u "Suc k" xs "[_]"] by simp
  with Cons.IH show ?case by auto
qed

lemma push_scores_data:
  "map (\<lambda>sc. (criterion sc, score sc, score_feedback sc)) (push_scores clk u k new [])
     = map (\<lambda>x. (sd_criterion x, sd_score x, sd_feedback x)) new"
proof (induction new arbitrary: k)
  case Nil
  then show ?case by simp
next
  case (Cons x xs)
  have "push_scores clk u k (x # xs) []
      = [\<lparr>criterion = sd_criterion x, score = sd_score x,
        maxScore = (if truthy (sd_maxScore x) then the (sd_maxScore x) else 100),
        judge = Some u, score_feedback = sd_feedback x, timestamp = clk k\<rparr>]
      @ push_scores clk u (Suc k) xs []"
    using push_scores_append [of clk u "Suc k" xs "[_]"] by simp
  with Cons.IH show ?case by simp
qed

lemma add_feedback_judging: "judging (add_feedback u fb s) = judging s"
  by (simp add: add_feedback_def split: option.splits)

lemma judge_route_saved:
  assumes s: "Submission d sid = Some s"
    and ok: "judge_route d clk u sid new fb = (d', Inr r)"
  shows "\<exists>s'. Submission d' sid = Some s'
     \<and> scores (judging s') = filter (\<lambda>sc. judge sc \<noteq> Some u) (scores (judging s))
                               @ push_scores clk u 0 new []
     \<and> judging_status (judging s') = Judged
     \<and> r = totalScore (judging s')"
proof -
  from ok s obtain ev where ev: "Event d (event s) = Some ev"
    by (auto simp: judge_route_def split: option.splits)
  from ok s ev obtain kept where kept: "remove_judge u (scores (judging s)) = Inr kept"
    by (auto simp: judge_route_def split: if_splits sum.splits)
  let ?s1 = "s\<lparr>judging := (judging s)\<lparr>scores := push_scores clk u 0 new kept,
                                        judging_status := Judged\<rparr>\<rparr>"
  let ?s2 = "add_feedback u fb ?s1"
  let ?d1 = "d\<lparr>Submission := (Submission d)(sid \<mapsto> pre_save ?s2)\<rparr>"
  from ok s ev kept have d': "d' = fst (updateEventLeaderboard ?d1 (\<lambda>k. clk (Suc (length new + k))) (event s))"
    and r: "r = totalScore (judging (pre_save ?s2))"
    by (auto simp: judge_route_def save_submission_def Let_def
             split: if_splits prod.splits)
  have saved: "Submission d' sid = Some (pre_save ?s2)"
    by (simp add: d' updateEventLeaderboard_Submission)
  have sc: "scores (judging (pre_save ?s2)) = filter (\<lambda>sc. judge sc \<noteq> Some u) (scores (judging s))
                               @ push_scores clk u 0 new []"
    using push_scores_append [of clk u 0 new kept] remove_judge_filter [OF kept]
    by (simp add: pre_save_scores add_feedback_judging)
  have st: "judging_status (judging (pre_save ?s2)) = Judged"
    by (simp add: pre_save_judging_status add_feedback_judging)
  from saved sc st r show ?thesis
    by (intro exI [of _ "pre_save ?s2"] conjI)
qed

text \<open>
  C7. A successful judge submission stores the submission with all records of other
  judges unchanged and in their order, and with exactly the new score set as the
  records of this judge: the prior records of the judge are gone and nothing is
  duplicated.
\<close>

theorem judge_resubmission_replaces:
  assumes s: "Submission d sid = Some s"
    and ok: "judge_route d clk u sid new fb = (d', Inr r)"
  shows "\<exists>s'. Submission d' sid = Some s'
     \<and> filter (\<lambda>sc. judge sc \<noteq> Some u) (scores (judging s'))
         = filter (\<lambda>sc. judge sc \<noteq> Some u) (scores (judging s))
     \<and> map (\<lambda>sc. (criterion sc, score sc, score_feedback sc))
           (filter (\<lambda>sc. judge sc = Some u) (scores (judging s')))
         = map (\<lambda>x. (sd_criterion x, sd_score x, sd_feedback x)) new
     \<and> length (scores (judging s'))
         = length (filter (\<lambda>sc. judge sc \<noteq> Some u) (scores (judging s))) + length new"
proof -
  from judge_route_saved [OF s ok] obtain s' where
    saved: "Submission d' sid = Some s'"
    and sc: "scores (judging s') = filter (\<lambda>sc. judge sc \<noteq> Some u) (scores (judging s))
                               @ push_scores clk u 0 new []"
    by blast
  have all_u: "filter (\<lambda>sc. judge sc = Some u) (push_scores clk u 0 new []) = push_scores clk u 0 new []"
    by (auto simp: filter_id_conv dest: push_scores_judge)
  have none_u: "filter (\<lambda>sc. judge sc \<noteq> Some u) (push_scores clk u 0 new []) = []"
    by (auto simp: filter_empty_conv dest: push_scores_judge)
  have others: "filter (\<lambda>sc. judge sc \<noteq> Some u) (scores (judging s'))
         = filter (\<lambda>sc. judge sc \<noteq> Some u) (scores (judging s))"
    by (simp add: sc none_u)
  have "filter (\<lambda>sc. judge sc = Some u) (filter (\<lambda>sc. judge sc \<noteq> Some u) (scores (judging s))) = []"
    by (simp add: filter_empty_conv)
  then have own: "map (\<lambda>sc. (criterion sc, score sc, score_feedback sc))
           (filter (\<lambda>sc. judge sc = Some u) (scores (judging s')))
         = map (\<lambda>x. (sd_criterion x, sd_score x, sd_feedback x)) new"
    by (simp add: sc all_u push_scores_data)
  have "length (push_scores clk u 0 new []) = length new"
    using push_scores_data [of clk u 0 new, THEN arg_cong, of length] by simp
  then have len: "length (scores (judging s'))
         = length (filter (\<lambda>sc. judge sc \<noteq> Some u) (scores (judging s))) + length new"
    by (simp add: sc)
  from saved others own len show ?thesis
    by (intro exI [of _ s'] conjI)
qed

theorem judge_resubmission_replaces_witness:
  "\<exists>s'. Submission (fst (judge_route db0 clk0 5 10 rescore None)) 10 = Some s'
     \<and> map (\<lambda>sc. (judge sc, criterion sc, score sc)) (scores (judging sub_a))
         = [(Some 5, ''Innovation'', 80), (Some 6, ''Innovation'', 60)]
     \<and> map (\<lambda>sc. (judge sc, criterion sc, score sc)) (filter (\<lambda>sc. judge sc \<noteq> Some 5) (scores (judging s')))
         = [(Some 6, ''Innovation'', 60)]
     \<and> map (\<lambda>sc. (criterion sc, score sc, score_feedback sc)) (filter (\<lambda>sc. judge sc = Some 5) (scores (judging s')))
         = [(''Innovation'', 50, None)]
     \<and> length (scores (judging s')) = 2"
proof -
  have ok: "judge_route db0 clk0 5 10 rescore None = (fst (judge_route db0 clk0 5 10 rescore None), Inr 110)"
    using db0_judge by (simp add: prod_eq_iff)
  have before: "map (\<lambda>sc. (judge sc, criterion sc, score sc)) (scores (judging sub_a))
         = [(Some 5, ''Innovation'', 80), (Some 6, ''Innovation'', 60)]"
    by (simp add: example_defs)
  from judge_resubmission_replaces [OF db0_sub_a ok] obtain s' where
    s': "Submission (fst (judge_route db0 clk0 5 10 rescore None)) 10 = Some s'"
      "filter (\<lambda>sc. judge sc \<noteq> Some 5) (scores (judging s'))
         = filter (\<lambda>sc. judge sc \<noteq> Some 5) (scores (judging sub_a))"
      "map (\<lambda>sc. (criterion sc, score sc, score_feedback sc))
           (filter (\<lambda>sc. judge sc = Some 5) (scores (judging s')))
         = map (\<lambda>x. (sd_criterion x, sd_score x, sd_feedback x)) rescore"
      "length (scores (judging s'))
         = length (filter (\<lambda>sc. judge sc \<noteq> Some 5) (scores (judging sub_a))) + length rescore"
    by blast
  have others: "map (\<lambda>sc. (judge sc, criterion sc, score sc)) (filter (\<lambda>sc. judge sc \<noteq> Some 5) (scores (judging s')))
         = [(Some 6, ''Innovation'', 60)]"
    by (simp add: s'(2) example_defs)
  have own: "map (\<lambda>sc. (criterion sc, score sc, score_feedback sc)) (filter (\<lambda>sc. judge sc = Some 5) (scores (judging s')))
         = [(''Innovation'', 50, None)]"
    by (simp add: s'(3) rescore_def)
  have len: "length (scores (judging s')) = 2"
    by (simp add: s'(4) rescore_def example_defs)
  from s'(1) before others own len show ?thesis
    by (intro exI [of _ s'] conjI)
qed

text \<open>
  C2 fails on the code where the score list becomes empty. The pre-save hook
  recomputes the totals only for a non-empty list, so a judge who resubmits an empty
  score set for a submission that held only that judge's record of 90 leaves the
  score list empty and \<open>totalScore = 90\<close>, \<open>averageScore = 90\<close>. For a
  non-empty list the totals are the sum and the mean (\<open>pre_save_total_nonempty\<close>).
\<close>

theorem emptied_scores_keep_total:
  "map_option (\<lambda>s. (scores (judging s), totalScore (judging s), averageScore (judging s)))
     (Submission db0 12)
     = Some ([judged 5 ''Innovation'' 90], 90, 90)
   \<and> snd (judge_route db0 clk0 5 12 [] None) = Inr 90
   \<and> map_option (\<lambda>s. (scores (judging s), totalScore (judging s), averageScore (judging s)))
       (Submission (fst (judge_route db0 clk0 5 12 [] None)) 12)
     = Some ([], 90, 90)"
  by (simp add: judge_route_def example_defs route_defs add_feedback_def)

section \<open>The entries of a rebuilt leaderboard\<close>

lemma insert_by_set: "set (insert_by cmp x ys) = insert x (set ys)"
  by (induction ys) auto

lemma sort_by_set_any: "set (sort_by cmp xs) = set xs"
  by (induction xs) (simp_all add: insert_by_set)

lemma insert_by_distinct_map:
  "distinct (map f (insert_by cmp x ys)) \<longleftrightarrow> f x \<notin> f ` set ys \<and> distinct (map f ys)"
  by (induction ys) (auto simp: insert_by_set)

lemma sort_by_distinct_map:
  "distinct (map f (sort_by cmp xs)) \<longleftrightarrow> distinct (map f xs)"
  by (induction xs) (simp_all add: insert_by_distinct_map sort_by_set_any)

lemma assign_ranks_from_submissions:
  "map entry_submission (assign_ranks_from i xs) = map entry_submission xs"
  by (induction xs arbitrary: i) simp_all

lemma collect_entries_submissions:
  assumes "collect_entries d clk ps [] = Inr lb"
  shows "map entry_submission lb
     = map fst (filter (\<lambda>p. status (snd p) = Submitted \<and> totalScore (judging (snd p)) > 0) ps)"
proof -
  have "map entry_submission lb = map fst (map (\<lambda>e. (entry_submission e, entry_totalScore e)) lb)"
    by simp
  also have "\<dots> = map fst (map (\<lambda>p. (fst p, totalScore (judging (snd p)) + publicVotes (voting (snd p)) * 10))
           (filter (\<lambda>p. status (snd p) = Submitted \<and> totalScore (judging (snd p)) > 0) ps))"
    using collect_entries_pairs [OF assms] by simp
  also have "\<dots> = map fst (filter (\<lambda>p. status (snd p) = Submitted \<and> totalScore (judging (snd p)) > 0) ps)"
    by simp
  finally show ?thesis .
qed

text \<open>
  C3 (amended). After a successful run of \<^verbatim>\<open>updateEventLeaderboard\<close> the
  persisted leaderboard has an entry for exactly those submissions listed in the event
  that exist, have status submitted and have a positive \<open>judging.totalScore\<close>; with
  a duplicate-free submission list there is exactly one entry for each; and no entry
  refers to a submission that is not in the store, so a deleted submission is absent.
\<close>

theorem recompute_entries_eligible:
  assumes ev: "Event d eventId = Some ev"
    and ok: "rebuild_leaderboard d clk eventId = Inr (d', lb)"
  shows "map_option leaderboard (Event d' eventId) = Some lb
    \<and> entry_submission ` set lb
        = {i \<in> set (submissions ev). \<exists>s. Submission d i = Some s \<and> status s = Submitted
                                          \<and> totalScore (judging s) > 0}
    \<and> (distinct (submissions ev) \<longrightarrow> distinct (map entry_submission lb))
    \<and> (\<forall>i. Submission d i = None \<longrightarrow> i \<notin> entry_submission ` set lb)"
proof -
  from ok ev obtain lb0 where
    lb0: "collect_entries d clk (populate_submissions d (submissions ev)) [] = Inr lb0"
    and lb: "lb = assign_ranks (sort_by by_totalScore lb0)"
    by (auto elim!: rebuild_leaderboard_success)
  let ?ps = "populate_submissions d (submissions ev)"
  let ?el = "\<lambda>p::oid \<times> submission. status (snd p) = Submitted \<and> totalScore (judging (snd p)) > 0"
  have subs0: "map entry_submission lb0 = map fst (filter ?el ?ps)"
    by (rule collect_entries_submissions [OF lb0])
  have c1: "map_option leaderboard (Event d' eventId) = Some lb"
    by (rule rebuild_persisted [OF ok])
  have same: "map entry_submission lb = map entry_submission (sort_by by_totalScore lb0)"
    by (simp add: lb assign_ranks_def assign_ranks_from_submissions)
  have perm: "set (map entry_submission (sort_by by_totalScore lb0)) = set (map entry_submission lb0)"
    by (simp add: sort_by_set_any)
  have "set (map entry_submission lb) = set (map fst (filter ?el ?ps))"
    by (simp only: same perm subs0)
  also have "\<dots> = {i \<in> set (submissions ev). \<exists>s. Submission d i = Some s \<and> status s = Submitted
                                          \<and> totalScore (judging s) > 0}"
    using populate_submissions_lookup [of _ _ d "submissions ev"] by (auto simp: image_iff) force
  finally have c2: "entry_submission ` set lb
        = {i \<in> set (submissions ev). \<exists>s. Submission d i = Some s \<and> status s = Submitted
                                          \<and> totalScore (judging s) > 0}"
    by simp
  have c3: "distinct (submissions ev) \<longrightarrow> distinct (map entry_submission lb)"
  proof
    assume "distinct (submissions ev)"
    then have "distinct (map fst ?ps)"
      by (simp add: populate_submissions_fst)
    then have "distinct (map fst (filter ?el ?ps))"
      by (rule distinct_map_filter)
    then show "distinct (map entry_submission lb)"
      by (simp only: same sort_by_distinct_map subs0)
  qed
  have c4: "\<forall>i. Submission d i = None \<longrightarrow> i \<notin> entry_submission ` set lb"
    unfolding c2 by auto
  from c1 c2 c3 c4 show ?thesis
    by (intro conjI)
qed

theorem recompute_entries_eligible_witness:
  "\<exists>d' lb. rebuild_leaderboard db0 clk0 1 = Inr (d', lb)
     \<and> distinct (submissions event1)
     \<and> map_option leaderboard (Event d' 1) = Some lb
     \<and> entry_submission ` set lb = {10, 11, 12}
     \<and> distinct (map entry_submission lb)
     \<and> Submission db0 99 = None \<and> 99 \<notin> entry_submission ` set lb"
proof -
  from db0_rebuild obtain d' lb where
    ok: "rebuild_leaderboard db0 clk0 1 = Inr (d', lb)"
    and lb: "map (\<lambda>e. (entry_submission e, entry_totalScore e, rank e)) lb
               = [(10, 185, 1), (11, 185, 2), (12, 90, 3)]"
    by (elim exE conjE)
  note props = recompute_entries_eligible [OF db0_event ok]
  have di: "distinct (submissions event1)"
    by (simp add: event1_def)
  have "map entry_submission lb = map fst (map (\<lambda>e. (entry_submission e, entry_totalScore e, rank e)) lb)"
    by simp
  then have ids: "map entry_submission lb = [10, 11, 12]"
    by (simp only: lb) simp
  have "set (map entry_submission lb) = {10, 11, 12}"
    by (simp only: ids) simp
  then have set: "entry_submission ` set lb = {10, 11, 12}"
    by simp
  have none: "Submission db0 99 = None"
    by (simp add: db0_def)
  from props di have dl: "distinct (map entry_submission lb)"
    by blast
  from props none have gone: "99 \<notin> entry_submission ` set lb"
    by blast
  from props have stored: "map_option leaderboard (Event d' 1) = Some lb"
    by blast
  from ok di stored set dl none gone show ?thesis
    by (intro exI [of _ d'] exI [of _ lb] conjI)
qed

text \<open>
  C3 as stated fails: a submitted submission without judge scores and with one public
  vote of 4 has the combined score 40, and the rebuilt leaderboard has no entry for it.
\<close>

theorem votes_only_submission_counterexample:
  "13 \<in> set (submissions event1) \<and> Event db0 1 = Some event1 \<and> Submission db0 13 = Some sub_d
   \<and> status sub_d = Submitted
   \<and> totalScore (judging sub_d) = 0 \<and> publicVotes (voting sub_d) = 4
   \<and> totalScore (judging sub_d) + publicVotes (voting sub_d) * 10 = 40
   \<and> (\<exists>d' lb. rebuild_leaderboard db0 clk0 1 = Inr (d', lb)
         \<and> updateEventLeaderboard db0 clk0 1 = (d', lb)
         \<and> map_option leaderboard (Event d' 1) = Some lb
         \<and> map entry_submission lb = [10, 11, 12]
         \<and> 13 \<notin> entry_submission ` set lb)"
  by (simp add: example_defs route_defs)

text \<open>A successful delete leaves no document under the deleted id.\<close>

lemma delete_route_unlinks:
  assumes "delete_route d clk u sid = (d', Inr r)"
  shows "Submission d' sid = None"
proof -
  from assms obtain s t ev where s: "Submission d sid = Some s" and t: "Team d (team s) = Some t"
    and ev: "Event d (event s) = Some ev"
    by (auto simp: delete_route_def split: option.splits)
  let ?d3 = "d\<lparr>Team := (Team d)(team s \<mapsto> t\<lparr>team_submission := None\<rparr>),
               Event := (Event d)(event s \<mapsto> ev\<lparr>submissions := removeAll sid (submissions ev)\<rparr>),
               Submission := (Submission d)(sid := None)\<rparr>"
  from assms s t ev have "d' = fst (updateEventLeaderboard ?d3 clk (event s))"
    by (auto simp: delete_route_def Let_def split: if_splits prod.splits)
  then show ?thesis
    by (simp add: updateEventLeaderboard_Submission)
qed

text \<open>
  C10 fails on the code. On the example store the rebuild of the mutation triggers
  lists three submissions with the scores 185, 185, 90, and the organizer's rebuild
  lists all five with the scores 140, 140, 90, 70, 0: it applies no eligibility test
  and leaves the public votes out of the score.
\<close>

theorem rebuilds_differ:
  "map (\<lambda>e. (entry_submission e, entry_totalScore e, rank e)) (snd (updateEventLeaderboard db0 clk0 1))
     = [(10, 185, 1), (11, 185, 2), (12, 90, 3)]
   \<and> (\<exists>d' lb. update_leaderboard_route db0 clk0 1 1 = (d', Inr lb)
         \<and> map (\<lambda>e. (entry_submission e, entry_totalScore e, rank e)) lb
             = [(10, 140, 1), (11, 140, 2), (12, 90, 3), (14, 70, 4), (13, 0, 5)])"
  by (simp add: example_defs route_defs update_leaderboard_route_def autoJudge_def
      auto_scores_def empty_metadata_def)

text \<open>
  C1 as stated fails for the two recomputations that are not a completed run of
  \<^verbatim>\<open>updateEventLeaderboard\<close>. The organizer's rebuild persists the list in the
  order of \<open>judging.totalScore\<close> alone: submission 12 (combined score 90) gets
  rank 1 in front of submission 10 (combined score 125). And when the rebuild inside a
  trigger throws, here at the team that submission 12 refers to and that no longer
  exists, the judge route still answers with success and the stored leaderboard stays
  as it was: submission 10 keeps rank 1 with a combined score of 155, in front of
  submission 11 with 185.
\<close>

theorem recompute_order_counterexample:
  "(\<exists>d' lb. update_leaderboard_route db1 clk0 1 1 = (d', Inr lb)
       \<and> map_option leaderboard (Event d' 1) = Some lb
       \<and> map (\<lambda>e. (entry_submission e, entry_totalScore e, rank e)) lb
           = [(12, 90, 1), (10, 80, 2)]
       \<and> map_option (\<lambda>s. totalScore (judging s) + publicVotes (voting s) * 10) (Submission d' 12)
           = Some 90
       \<and> map_option (\<lambda>s. totalScore (judging s) + publicVotes (voting s) * 10) (Submission d' 10)
           = Some 125)
   \<and> (\<exists>d'. judge_route db_dangling clk0 5 10 rescore None = (d', Inr 110)
       \<and> map_option (\<lambda>ev. map (\<lambda>e. (entry_submission e, entry_totalScore e, rank e)) (leaderboard ev))
             (Event d' 1) = Some [(10, 185, 1), (11, 185, 2), (12, 90, 3)]
       \<and> map_option (\<lambda>s. totalScore (judging s) + publicVotes (voting s) * 10) (Submission d' 10)
           = Some 155
       \<and> map_option (\<lambda>s. totalScore (judging s) + publicVotes (voting s) * 10) (Submission d' 11)
           = Some 185)"
proof -
  have organizer: "\<exists>d' lb. update_leaderboard_route db1 clk0 1 1 = (d', Inr lb)
       \<and> map_option leaderboard (Event d' 1) = Some lb
       \<and> map (\<lambda>e. (entry_submission e, entry_totalScore e, rank e)) lb
           = [(12, 90, 1), (10, 80, 2)]
       \<and> map_option (\<lambda>s. totalScore (judging s) + publicVotes (voting s) * 10) (Submission d' 12)
           = Some 90
       \<and> map_option (\<lambda>s. totalScore (judging s) + publicVotes (voting s) * 10) (Submission d' 10)
           = Some 125"
    by (simp add: db1_def sub_f_def example_defs route_defs update_leaderboard_route_def)
  have stale: "\<exists>d'. judge_route db_dangling clk0 5 10 rescore None = (d', Inr 110)
       \<and> map_option (\<lambda>ev. map (\<lambda>e. (entry_submission e, entry_totalScore e, rank e)) (leaderboard ev))
             (Event d' 1) = Some [(10, 185, 1), (11, 185, 2), (12, 90, 3)]
       \<and> map_option (\<lambda>s. totalScore (judging s) + publicVotes (voting s) * 10) (Submission d' 10)
           = Some 155
       \<and> map_option (\<lambda>s. totalScore (judging s) + publicVotes (voting s) * 10) (Submission d' 11)
           = Some 185"
    by (simp add: db_dangling_def judge_route_def example_defs route_defs rescore_def add_feedback_def)
  from organizer stale show ?thesis
    by (rule conjI)
qed

section \<open>Reading the leaderboard\<close>




end
